theory Spec2Isabelle
  imports Main
begin

section \<open>Python strings\<close>

text \<open>
  A Python \<^verbatim>\<open>str\<close> is a sequence of Unicode code points, and \<^verbatim>\<open>len\<close> counts code
  points. A string is therefore modelled as a list of code points, each a natural number
  (the bullet glyph of the heading patterns is U+2022, outside any 8-bit character type).
\<close>

type_synonym pystr = "nat list"

text \<open>ASCII literals are written through \<open>cp\<close>, which maps each character to its code.\<close>

definition cp :: "string \<Rightarrow> pystr" where
  "cp s = map of_char s"

text \<open>
  The whitespace class of CPython (\<^verbatim>\<open>Py_UNICODE_ISSPACE\<close>). The same class is used by
  \<^verbatim>\<open>str.strip()\<close>, by \<^verbatim>\<open>str.split()\<close> without a separator and by \<^verbatim>\<open>\s\<close> in a
  \<^verbatim>\<open>re\<close> pattern over \<^verbatim>\<open>str\<close>.
\<close>

definition py_isspace :: "nat \<Rightarrow> bool" where
  "py_isspace c \<longleftrightarrow>
     (9 \<le> c \<and> c \<le> 13) \<or> (28 \<le> c \<and> c \<le> 32) \<or> c = 133 \<or> c = 160 \<or> c = 5760 \<or>
     (8192 \<le> c \<and> c \<le> 8202) \<or> c = 8232 \<or> c = 8233 \<or> c = 8239 \<or> c = 8287 \<or> c = 12288"

text \<open>\<^verbatim>\<open>s.strip()\<close>: whitespace removed at both ends.\<close>

definition py_strip :: "pystr \<Rightarrow> pystr" where
  "py_strip s = rev (dropWhile py_isspace (rev (dropWhile py_isspace s)))"

text \<open>
  \<^verbatim>\<open>xs[:n]\<close> for an integer \<open>n\<close>: the first \<open>n\<close> elements, and for a negative \<open>n\<close>
  all but the last \<open>-n\<close> elements.
\<close>

definition py_slice_to :: "'a list \<Rightarrow> int \<Rightarrow> 'a list" where
  "py_slice_to xs n =
     (if 0 \<le> n then take (nat n) xs else take (nat (int (length xs) + n)) xs)"

text \<open>\<^verbatim>\<open>s.split()\<close>: the maximal runs of non-whitespace characters, in order.\<close>

fun py_split :: "pystr \<Rightarrow> pystr list" where
  "py_split [] = []"
| "py_split (c # cs) =
     (if py_isspace c then py_split cs
      else (case cs of
              [] \<Rightarrow> [[c]]
            | d # _ \<Rightarrow>
                if py_isspace d then [c] # py_split cs
                else (case py_split cs of [] \<Rightarrow> [[c]] | w # ws \<Rightarrow> (c # w) # ws)))"

text \<open>\<^verbatim>\<open>sep.join(ws)\<close>.\<close>

fun py_join :: "pystr \<Rightarrow> pystr list \<Rightarrow> pystr" where
  "py_join sep [] = []"
| "py_join sep [w] = w"
| "py_join sep (w # v # ws) = w @ sep @ py_join sep (v # ws)"

text \<open>
  \<^verbatim>\<open>re.sub(r'\s+', ' ', s)\<close>: every maximal run of whitespace is replaced by one space
  (code point 32).
\<close>

function re_sub_ws :: "pystr \<Rightarrow> pystr" where
  "re_sub_ws [] = []"
| "re_sub_ws (c # cs) =
     (if py_isspace c then 32 # re_sub_ws (dropWhile py_isspace cs) else c # re_sub_ws cs)"
  by pat_completeness auto
termination
  by (relation "measure length") (auto simp: length_dropWhile_le less_Suc_eq_le)

section \<open>Configuration\<close>

text \<open>
  The class \<^verbatim>\<open>Config\<close> holds the thresholds as class attributes that
  \<^verbatim>\<open>update_config\<close> may overwrite; the functions read them when they run. The model
  passes the configuration as a record.
\<close>

record Config =
  MIN_SECTION_LENGTH :: int
  MAX_REFINED_TEXT_LENGTH :: int
  MAX_HEADING_LENGTH :: int
  MAX_HEADING_WORDS :: int

definition default_config :: Config where
  "default_config =
     \<lparr>MIN_SECTION_LENGTH = 50, MAX_REFINED_TEXT_LENGTH = 1000,
      MAX_HEADING_LENGTH = 200, MAX_HEADING_WORDS = 10\<rparr>"

section \<open>Sections\<close>

text \<open>
  A section is a dictionary with the keys \<^verbatim>\<open>title\<close>, \<^verbatim>\<open>content\<close> and
  \<^verbatim>\<open>page_number\<close>; \<^verbatim>\<open>load_documents_with_sections\<close> adds the key \<^verbatim>\<open>document\<close>
  to each one. A scored section pairs a section with its similarity and its index in the
  pool.
\<close>

record Section =
  title :: pystr
  content :: pystr
  page_number :: int

record Doc_Section = Section +
  document :: pystr

record ('a, 's) Scored =
  "section" :: 'a
  similarity :: 's
  index :: nat

section \<open>Section extraction: \<^verbatim>\<open>extract_sections_from_text\<close>\<close>

subsection \<open>Character tables and patterns\<close>

text \<open>
  The case and digit classes of a code point come from the Unicode database of the
  interpreter (\<^verbatim>\<open>Py_UNICODE_ISLOWER\<close>, \<^verbatim>\<open>Py_UNICODE_ISUPPER\<close>,
  \<^verbatim>\<open>Py_UNICODE_ISTITLE\<close>, \<^verbatim>\<open>Py_UNICODE_ISDECIMAL\<close>). They are a parameter of the
  model; \<open>ascii_tables\<close> is the instance that agrees with the database on the code points
  below 128.
\<close>

record Unicode_Tables =
  is_lower :: "nat \<Rightarrow> bool"
  is_upper :: "nat \<Rightarrow> bool"
  is_title :: "nat \<Rightarrow> bool"
  is_decimal :: "nat \<Rightarrow> bool"

definition ascii_tables :: Unicode_Tables where
  "ascii_tables =
     \<lparr>is_lower = (\<lambda>c. 97 \<le> c \<and> c \<le> 122),
      is_upper = (\<lambda>c. 65 \<le> c \<and> c \<le> 90),
      is_title = (\<lambda>c. False),
      is_decimal = (\<lambda>c. 48 \<le> c \<and> c \<le> 57)\<rparr>"

text \<open>
  \<^verbatim>\<open>s.isupper()\<close>: no character is lower-case or title-case, and some character is
  upper-case.
\<close>

definition py_isupper :: "Unicode_Tables \<Rightarrow> pystr \<Rightarrow> bool" where
  "py_isupper U s \<longleftrightarrow>
     list_all (\<lambda>c. \<not> is_lower U c \<and> \<not> is_title U c) s \<and> list_ex (is_upper U) s"

text \<open>\<^verbatim>\<open>s.endswith(':')\<close>.\<close>

definition ends_with_colon :: "pystr \<Rightarrow> bool" where
  "ends_with_colon s \<longleftrightarrow> s \<noteq> [] \<and> last s = 58"

text \<open>
  The three patterns use single characters from a class, greedy repetitions of a class
  and the end anchor. \<open>re_match\<close> is \<^verbatim>\<open>re.match\<close> for such a pattern: it matches at
  the start of the string, tries the longest repetition first and backtracks. The anchor
  \<^verbatim>\<open>$\<close> holds at the end of the string and before a newline that ends the string.
\<close>

datatype rx_item =
  One "nat \<Rightarrow> bool"
| Star "nat \<Rightarrow> bool"
| Plus "nat \<Rightarrow> bool"
| End_of_string

fun re_match :: "rx_item list \<Rightarrow> pystr \<Rightarrow> bool" where
  "re_match [] s = True"
| "re_match (One p # r) [] = False"
| "re_match (One p # r) (c # cs) = (p c \<and> re_match r cs)"
| "re_match (Star p # r) [] = re_match r []"
| "re_match (Star p # r) (c # cs) = ((p c \<and> re_match (Star p # r) cs) \<or> re_match r (c # cs))"
| "re_match (Plus p # r) [] = False"
| "re_match (Plus p # r) (c # cs) = (p c \<and> re_match (Star p # r) cs)"
| "re_match (End_of_string # r) s = ((s = [] \<or> s = [10]) \<and> re_match r s)"

definition capital :: "nat \<Rightarrow> bool" where
  "capital c \<longleftrightarrow> 65 \<le> c \<and> c \<le> 90"

definition not_sentence_end :: "nat \<Rightarrow> bool" where
  "not_sentence_end c \<longleftrightarrow> c \<noteq> 46 \<and> c \<noteq> 33 \<and> c \<noteq> 63"

text \<open>\<^verbatim>\<open>^[A-Z][^.!?]*[^.!?]$\<close>\<close>

definition title_case_pattern :: "rx_item list" where
  "title_case_pattern = [One capital, Star not_sentence_end, One not_sentence_end, End_of_string]"

text \<open>\<^verbatim>\<open>^\d+[\.\)]\s*[A-Z]\<close>\<close>

definition numbered_pattern :: "Unicode_Tables \<Rightarrow> rx_item list" where
  "numbered_pattern U =
     [Plus (is_decimal U), One (\<lambda>c. c = 46 \<or> c = 41), Star py_isspace, One capital]"

text \<open>\<^verbatim>\<open>^[\<bullet>\-\*]\s*[A-Z]\<close>, the first class being U+2022, the hyphen and the asterisk.\<close>

definition bullet_pattern :: "rx_item list" where
  "bullet_pattern = [One (\<lambda>c. c = 8226 \<or> c = 45 \<or> c = 42), Star py_isspace, One capital]"

subsection \<open>The heading test\<close>

text \<open>The body of the loop between the assignment of \<^verbatim>\<open>is_heading\<close> and its use.\<close>

definition is_heading :: "Unicode_Tables \<Rightarrow> Config \<Rightarrow> pystr \<Rightarrow> bool" where
  "is_heading U cfg line =
     (if int (length line) < MAX_HEADING_LENGTH cfg then
        (if py_isupper U line \<and> 3 < length line then True
         else if re_match title_case_pattern line \<and>
                 int (length (py_split line)) \<le> MAX_HEADING_WORDS cfg then True
         else if ends_with_colon line \<and> length (py_split line) \<le> 8 then True
         else if re_match (numbered_pattern U) line then True
         else if re_match bullet_pattern line \<and> length (py_split line) \<le> 8 then True
         else False)
      else False)"

text \<open>
  The five criteria on their own, and a classifier that tries a list of criteria in
  order and stops at the first that holds.
\<close>

definition all_caps :: "Unicode_Tables \<Rightarrow> pystr \<Rightarrow> bool" where
  "all_caps U line \<longleftrightarrow> py_isupper U line \<and> 3 < length line"

definition title_case :: "Config \<Rightarrow> pystr \<Rightarrow> bool" where
  "title_case cfg line \<longleftrightarrow>
     re_match title_case_pattern line \<and> int (length (py_split line)) \<le> MAX_HEADING_WORDS cfg"

definition colon_heading :: "pystr \<Rightarrow> bool" where
  "colon_heading line \<longleftrightarrow> ends_with_colon line \<and> length (py_split line) \<le> 8"

definition numbered_heading :: "Unicode_Tables \<Rightarrow> pystr \<Rightarrow> bool" where
  "numbered_heading U line \<longleftrightarrow> re_match (numbered_pattern U) line"

definition bullet_heading :: "pystr \<Rightarrow> bool" where
  "bullet_heading line \<longleftrightarrow> re_match bullet_pattern line \<and> length (py_split line) \<le> 8"

definition criteria :: "Unicode_Tables \<Rightarrow> Config \<Rightarrow> (pystr \<Rightarrow> bool) list" where
  "criteria U cfg =
     [all_caps U, title_case cfg, colon_heading, numbered_heading U, bullet_heading]"

fun first_match :: "(pystr \<Rightarrow> bool) list \<Rightarrow> pystr \<Rightarrow> bool" where
  "first_match [] line = False"
| "first_match (p # ps) line = (if p line then True else first_match ps line)"

subsection \<open>Splitting the page\<close>

text \<open>\<^verbatim>\<open>text.split('\n')\<close>\<close>

fun split_newline :: "pystr \<Rightarrow> pystr list" where
  "split_newline [] = [[]]"
| "split_newline (c # cs) =
     (if c = 10 then [] # split_newline cs
      else (case split_newline cs of [] \<Rightarrow> [[c]] | l # ls \<Rightarrow> (c # l) # ls))"

text \<open>\<^verbatim>\<open>text.split('\n\n')\<close>: the separators are found from the left and do not overlap.\<close>

fun split_blank :: "pystr \<Rightarrow> pystr list" where
  "split_blank [] = [[]]"
| "split_blank [c] = [[c]]"
| "split_blank (c # d # cs) =
     (if c = 10 \<and> d = 10 then [] # split_blank cs
      else (case split_blank (d # cs) of [] \<Rightarrow> [[c]] | l # ls \<Rightarrow> (c # l) # ls))"

subsection \<open>The strategies\<close>

text \<open>
  The state of the loop over the lines: the sections emitted so far, the current title
  and the content accumulated for it.
\<close>

type_synonym heading_state = "Section list \<times> pystr \<times> pystr"

text \<open>
  The test that guards both appends of the heading strategy. An empty string is false in
  a Python condition.
\<close>

definition flush :: "int \<Rightarrow> int \<Rightarrow> pystr \<Rightarrow> pystr \<Rightarrow> Section list" where
  "flush page min_section_length current_title current_section =
     (if current_title \<noteq> [] \<and> current_section \<noteq> [] \<and>
         min_section_length \<le> int (length (py_strip current_section))
      then [\<lparr>title = current_title, content = py_strip current_section,
              page_number = page\<rparr>]
      else [])"

definition heading_step ::
  "Unicode_Tables \<Rightarrow> Config \<Rightarrow> int \<Rightarrow> int \<Rightarrow> heading_state \<Rightarrow> pystr \<Rightarrow> heading_state" where
  "heading_step U cfg page min_section_length st raw =
     (case st of (sections, current_title, current_section) \<Rightarrow>
        (let line = py_strip raw in
         if line = [] then st
         else if is_heading U cfg line then
           (sections @ flush page min_section_length current_title current_section,
            line, [])
         else (sections, current_title, current_section @ line @ [32])))"

text \<open>The loop over the lines and the append of the last section.\<close>

definition heading_sections ::
  "Unicode_Tables \<Rightarrow> Config \<Rightarrow> pystr \<Rightarrow> int \<Rightarrow> int \<Rightarrow> Section list" where
  "heading_sections U cfg text page min_section_length =
     (case foldl (heading_step U cfg page min_section_length) ([], [], [])
             (split_newline text) of
        (sections, current_title, current_section) \<Rightarrow>
          sections @ flush page min_section_length current_title current_section)"

text \<open>\<^verbatim>\<open>[p.strip() for p in text.split('\n\n') if p.strip()]\<close>\<close>

definition paragraphs_of :: "pystr \<Rightarrow> pystr list" where
  "paragraphs_of text = [py_strip p. p \<leftarrow> split_blank text, py_strip p \<noteq> []]"

text \<open>The section made from one paragraph.\<close>

definition paragraph_section :: "int \<Rightarrow> pystr \<Rightarrow> Section" where
  "paragraph_section page paragraph =
     (let words = py_split paragraph;
          t = py_join [32] (py_slice_to words 8) @ (if 8 < length words then cp ''...'' else [])
      in \<lparr>title = t, content = paragraph, page_number = page\<rparr>)"

text \<open>
  What the third strategy appends, given the sections found so far: nothing unless that
  list is empty and there are paragraphs.
\<close>

definition paragraph_sections :: "Section list \<Rightarrow> pystr list \<Rightarrow> int \<Rightarrow> int \<Rightarrow> Section list" where
  "paragraph_sections sections paragraphs page min_section_length =
     (if sections = [] \<and> paragraphs \<noteq> [] then
        concat (map (\<lambda>paragraph.
                       if min_section_length \<le> int (length paragraph)
                       then [paragraph_section page paragraph] else [])
                    paragraphs)
      else [])"

text \<open>What the fourth strategy appends, given the sections found so far.\<close>

definition whole_page_sections :: "Section list \<Rightarrow> pystr \<Rightarrow> int \<Rightarrow> int \<Rightarrow> Section list" where
  "whole_page_sections sections text page min_section_length =
     (if sections = [] \<and> min_section_length \<le> int (length (py_strip text)) then
        (let words = py_split (py_strip text);
             t = py_join [32] (py_slice_to words 10) @
                   (if 10 < length words then cp ''...'' else [])
         in [\<lparr>title = t, content = py_strip text, page_number = page\<rparr>])
      else [])"

text \<open>
  \<^verbatim>\<open>extract_sections_from_text\<close>. The argument \<open>min_section_length\<close> is \<open>None\<close> when
  the caller leaves it out; the threshold is then read from the configuration.
\<close>

definition threshold :: "Config \<Rightarrow> int option \<Rightarrow> int" where
  "threshold cfg min_section_length =
     (case min_section_length of None \<Rightarrow> MIN_SECTION_LENGTH cfg | Some m \<Rightarrow> m)"

definition extract_sections_from_text ::
  "Unicode_Tables \<Rightarrow> Config \<Rightarrow> pystr \<Rightarrow> int \<Rightarrow> int option \<Rightarrow> Section list" where
  "extract_sections_from_text U cfg text page min_section_length =
     (let m = threshold cfg min_section_length;
          paragraphs = paragraphs_of text;
          sections = heading_sections U cfg text page m;
          sections = sections @ paragraph_sections sections paragraphs page m;
          sections = sections @ whole_page_sections sections text page m
      in sections)"

section \<open>Relevance ranking: \<^verbatim>\<open>find_relevant_sections\<close>\<close>

text \<open>
  A Python float is either not-a-number or a number; the numbers are linearly ordered,
  and every comparison with not-a-number is false. The arithmetic of floats plays no part
  in the ranking, so the numbers are any linear order.
\<close>

datatype 's pyfloat = NaN | Num 's

fun float_ge :: "'s::linorder pyfloat \<Rightarrow> 's pyfloat \<Rightarrow> bool" where
  "float_ge (Num a) (Num b) = (b \<le> a)"
| "float_ge _ _ = False"

text \<open>
  The sentence-transformers library is outside the program. The model takes it as a
  record of four operations: the constructor \<^verbatim>\<open>SentenceTransformer(model_name)\<close>,
  \<^verbatim>\<open>model.encode\<close> on one string and on a list of strings, and row 0 of
  \<^verbatim>\<open>util.cos_sim\<close>. The first three may raise.
\<close>

datatype py_exception = Exception pystr

record ('m, 'v, 's) Encoder =
  SentenceTransformer :: "pystr \<Rightarrow> py_exception + 'm"
  encode :: "'m \<Rightarrow> pystr \<Rightarrow> py_exception + 'v"
  encode_batch :: "'m \<Rightarrow> pystr list \<Rightarrow> py_exception + 'v list"
  cos_sim :: "'v \<Rightarrow> 'v list \<Rightarrow> 's pyfloat list"

text \<open>The calls made to the library, in the order in which they are made.\<close>

datatype event = Load_model pystr | Encode_one pystr | Encode_batch "pystr list"

text \<open>\<^verbatim>\<open>f"{section['title']} {section['content']}"\<close>\<close>

definition combined_text :: "'a Section_scheme \<Rightarrow> pystr" where
  "combined_text s = title s @ [32] @ content s"

text \<open>
  The loop over \<^verbatim>\<open>enumerate(zip(sections, similarities))\<close>, started at index \<open>i\<close>.
  A section is appended when \<^verbatim>\<open>float(similarity) >= min_similarity\<close>, which is false
  when either side is not-a-number; the similarity stored with it is therefore a number.
\<close>

fun score_loop :: "nat \<Rightarrow> ('a \<times> 's::linorder pyfloat) list \<Rightarrow> 's pyfloat \<Rightarrow> ('a, 's) Scored list"
  where
  "score_loop i [] min_similarity = []"
| "score_loop i ((sec, sim) # rest) min_similarity =
     (case sim of
        NaN \<Rightarrow> score_loop (Suc i) rest min_similarity
      | Num v \<Rightarrow>
          if float_ge (Num v) min_similarity
          then \<lparr>section = sec, similarity = v, index = i\<rparr> # score_loop (Suc i) rest min_similarity
          else score_loop (Suc i) rest min_similarity)"

text \<open>
  \<^verbatim>\<open>xs.sort(key=f, reverse=True)\<close>. The sort of Python is stable, also when reversed:
  elements with equal keys keep their order. It is the stable ascending sort of the
  reversed list, reversed.
\<close>

definition sort_reverse :: "('b \<Rightarrow> 'k::linorder) \<Rightarrow> 'b list \<Rightarrow> 'b list" where
  "sort_reverse f xs = rev (sort_key f (rev xs))"

text \<open>
  \<^verbatim>\<open>find_relevant_sections\<close>. The result is the list of calls made to the library and
  either the exception raised or the list returned.
\<close>

definition find_relevant_sections ::
  "('m, 'v, 's::linorder) Encoder \<Rightarrow> pystr \<Rightarrow> 'a Section_scheme list \<Rightarrow> pystr \<Rightarrow> int \<Rightarrow>
   's pyfloat \<Rightarrow> event list \<times> (py_exception + ('a Section_scheme, 's) Scored list)" where
  "find_relevant_sections E task sections model_name top_n min_similarity =
     (case SentenceTransformer E model_name of
        Inl e \<Rightarrow> ([Load_model model_name], Inl e)
      | Inr model \<Rightarrow>
          if sections = [] then ([Load_model model_name], Inr [])
          else
            (let section_texts = map combined_text sections in
             case encode E model task of
               Inl e \<Rightarrow> ([Load_model model_name, Encode_one task], Inl e)
             | Inr task_embedding \<Rightarrow>
                 (case encode_batch E model section_texts of
                    Inl e \<Rightarrow>
                      ([Load_model model_name, Encode_one task, Encode_batch section_texts],
                       Inl e)
                  | Inr section_embeddings \<Rightarrow>
                      (let similarities = cos_sim E task_embedding section_embeddings;
                           scored_sections =
                             score_loop 0 (zip sections similarities) min_similarity;
                           scored_sections = sort_reverse similarity scored_sections
                       in ([Load_model model_name, Encode_one task, Encode_batch section_texts],
                           Inr (py_slice_to scored_sections top_n))))))"

text \<open>
  An encoder for examples. Its model cannot be loaded under the name \<^verbatim>\<open>missing\<close>; an
  embedding is the length of the text, and the similarity of a section is the length of
  its text when that is even, and not-a-number otherwise.
\<close>

definition example_encoder :: "(unit, nat, int) Encoder" where
  "example_encoder =
     \<lparr>SentenceTransformer =
        (\<lambda>name. if name = cp ''missing'' then Inl (Exception (cp ''cannot load'')) else Inr ()),
      encode = (\<lambda>model s. Inr (length s)),
      encode_batch = (\<lambda>model ss. Inr (map length ss)),
      cos_sim = (\<lambda>a bs. map (\<lambda>b. if even b then Num (int b div 2) else NaN) bs)\<rparr>"

text \<open>A pool of six sections for examples.\<close>

definition example_pool :: "Section list" where
  "example_pool =
     [\<lparr>title = cp ''ab'', content = cp ''cd'', page_number = 1\<rparr>,
      \<lparr>title = cp ''ab'', content = cp ''c'', page_number = 1\<rparr>,
      \<lparr>title = cp ''ab'', content = cp ''cde'', page_number = 2\<rparr>,
      \<lparr>title = cp ''xy'', content = cp ''zzz'', page_number = 2\<rparr>,
      \<lparr>title = cp ''a'', content = cp '''', page_number = 3\<rparr>,
      \<lparr>title = cp ''abcd'', content = cp ''efg'', page_number = 3\<rparr>]"

section \<open>Report assembly: \<^verbatim>\<open>create_output_json\<close>\<close>

record Document_Info =
  filename :: pystr
  doc_title :: pystr

text \<open>
  The input dictionary. The key \<^verbatim>\<open>challenge_info\<close> may be absent (\<open>None\<close>), and when
  present it may lack the key \<^verbatim>\<open>description\<close> (\<open>Some None\<close>).
\<close>

record Input_Data =
  documents :: "Document_Info list"
  persona_role :: pystr
  job_task :: pystr
  challenge_info :: "pystr option option"

record Metadata =
  input_documents :: "pystr list"
  persona :: pystr
  job_to_be_done :: pystr
  processing_timestamp :: pystr
  description :: "pystr option"

record Extracted =
  es_document :: pystr
  es_section_title :: pystr
  es_importance_rank :: int
  es_page_number :: int

record Analysis =
  sa_document :: pystr
  sa_refined_text :: pystr
  sa_page_number :: int

record Report =
  metadata :: Metadata
  extracted_sections :: "Extracted list"
  subsection_analysis :: "Analysis list"

text \<open>The first loop, \<^verbatim>\<open>for i, item in enumerate(relevant_sections, 1)\<close>.\<close>

fun extracted_loop :: "int \<Rightarrow> (Doc_Section, 's) Scored list \<Rightarrow> Extracted list" where
  "extracted_loop i [] = []"
| "extracted_loop i (item # items) =
     \<lparr>es_document = document (section item),
      es_section_title = title (section item),
      es_importance_rank = i,
      es_page_number = page_number (section item)\<rparr> # extracted_loop (i + 1) items"

text \<open>
  The two assignments to \<^verbatim>\<open>refined_text\<close>: slice, strip, then the substitution.
\<close>

definition refined_text :: "Config \<Rightarrow> pystr \<Rightarrow> pystr" where
  "refined_text cfg c =
     (let r = py_strip (py_slice_to c (MAX_REFINED_TEXT_LENGTH cfg))
      in re_sub_ws r)"

fun analysis_loop :: "Config \<Rightarrow> (Doc_Section, 's) Scored list \<Rightarrow> Analysis list" where
  "analysis_loop cfg [] = []"
| "analysis_loop cfg (item # items) =
     \<lparr>sa_document = document (section item),
      sa_refined_text = refined_text cfg (content (section item)),
      sa_page_number = page_number (section item)\<rparr> # analysis_loop cfg items"

text \<open>
  \<^verbatim>\<open>create_output_json\<close>. The clock read by \<^verbatim>\<open>datetime.now().isoformat()\<close> is the
  parameter \<open>now\<close>.
\<close>

definition create_output_json ::
  "Config \<Rightarrow> pystr \<Rightarrow> Input_Data \<Rightarrow> (Doc_Section, 's) Scored list \<Rightarrow> Report" where
  "create_output_json cfg now input_data relevant_sections =
     \<lparr>metadata =
        \<lparr>input_documents = map filename (documents input_data),
         persona = persona_role input_data,
         job_to_be_done = job_task input_data,
         processing_timestamp = now,
         description = (case challenge_info input_data of
                          Some (Some d) \<Rightarrow> Some d
                        | _ \<Rightarrow> None)\<rparr>,
      extracted_sections = extracted_loop 1 relevant_sections,
      subsection_analysis = analysis_loop cfg relevant_sections\<rparr>"


text \<open>The content of a section reaches the threshold \<open>m\<close> after stripping.\<close>

definition long_enough :: "int \<Rightarrow> Section \<Rightarrow> bool" where
  "long_enough m s \<longleftrightarrow> m \<le> int (length (py_strip (content s)))"

text \<open>A word is not empty and holds no whitespace.\<close>

definition word_ok :: "pystr \<Rightarrow> bool" where
  "word_ok w \<longleftrightarrow> w \<noteq> [] \<and> list_all (\<lambda>c. \<not> py_isspace c) w"

section \<open>Cleaned strings\<close>

text \<open>
  A string is trimmed when it neither starts nor ends with whitespace, and single-spaced
  when each of its whitespace characters is a space that is followed by no further
  whitespace. A cleaned string is a trimmed, single-spaced string that is no longer than
  \<^verbatim>\<open>MAX_REFINED_TEXT_LENGTH\<close>.
\<close>

definition trimmed :: "pystr \<Rightarrow> bool" where
  "trimmed s \<longleftrightarrow> s = [] \<or> (\<not> py_isspace (hd s) \<and> \<not> py_isspace (last s))"

fun single_spaced :: "pystr \<Rightarrow> bool" where
  "single_spaced [] = True"
| "single_spaced [c] = (py_isspace c \<longrightarrow> c = 32)"
| "single_spaced (c # d # r) =
     ((py_isspace c \<longrightarrow> c = 32 \<and> \<not> py_isspace d) \<and> single_spaced (d # r))"

definition is_cleaned :: "Config \<Rightarrow> pystr \<Rightarrow> bool" where
  "is_cleaned cfg s \<longleftrightarrow>
     int (length s) \<le> MAX_REFINED_TEXT_LENGTH cfg \<and> trimmed s \<and> single_spaced s"


section \<open>Properties of the string operations\<close>


subsection \<open>Stripping\<close>


lemma dropWhile_rev_last:
  "\<not> P (last s) \<Longrightarrow> s \<noteq> [] \<Longrightarrow> dropWhile P (rev s) = rev s"
  by (cases s rule: rev_cases) simp_all

lemma trimmed_strip_id: "trimmed s \<Longrightarrow> py_strip s = s"
proof (cases s)
  case Nil
  then show ?thesis by (simp add: py_strip_def)
next
  case (Cons c cs)
  assume "trimmed s"
  with Cons have h: "\<not> py_isspace c" and l: "\<not> py_isspace (last s)"
    by (simp_all add: trimmed_def)
  from h Cons have "dropWhile py_isspace s = s" by simp
  moreover from l Cons have "dropWhile py_isspace (rev s) = rev s"
    by (intro dropWhile_rev_last) simp_all
  ultimately show ?thesis by (simp add: py_strip_def)
qed

lemma last_dropWhile_keep:
  "dropWhile P s \<noteq> [] \<Longrightarrow> last (dropWhile P s) = last s"
  by (induction s) (auto split: if_splits)

lemma trimmed_strip: "trimmed (py_strip s)"
proof -
  let ?a = "dropWhile py_isspace s"
  let ?b = "dropWhile py_isspace (rev ?a)"
  show ?thesis
  proof (cases "?b = []")
    case True
    then show ?thesis by (simp add: trimmed_def py_strip_def)
  next
    case False
    then have l: "\<not> py_isspace (hd ?b)" by (rule hd_dropWhile)
    have ane: "?a \<noteq> []"
    proof
      assume "?a = []"
      then have "?b = []" by (simp only: rev.simps(1) dropWhile.simps(1))
      with False show False by contradiction
    qed
    then have ha: "\<not> py_isspace (hd ?a)" by (rule hd_dropWhile)
    from False have "last ?b = last (rev ?a)" by (rule last_dropWhile_keep)
    with ane have "last ?b = hd ?a" by (simp add: last_rev)
    with ha l False show ?thesis
      by (simp add: trimmed_def py_strip_def hd_rev last_rev)
  qed
qed

lemma length_strip_le: "length (py_strip s) \<le> length s"
proof -
  have "length (py_strip s) \<le> length (dropWhile py_isspace s)"
    unfolding py_strip_def using length_dropWhile_le [of py_isspace "rev (dropWhile py_isspace s)"]
    by simp
  also have "\<dots> \<le> length s" by (rule length_dropWhile_le)
  finally show ?thesis .
qed

subsection \<open>Splitting into words\<close>

lemma split_Nil_iff: "py_split s = [] \<longleftrightarrow> (\<forall>c \<in> set s. py_isspace c)"
  by (induction s rule: py_split.induct) (auto split: list.splits)

lemma split_dropWhile: "py_split (dropWhile py_isspace s) = py_split s"
  by (induction s) simp_all

lemma split_snoc_space: "py_isspace c \<Longrightarrow> py_split (s @ [c]) = py_split s"
proof (induction s rule: py_split.induct)
  case 1
  then show ?case by simp
next
  case (2 a as)
  show ?case
  proof (cases "py_isspace a")
    case True
    with 2 show ?thesis by simp
  next
    case False
    show ?thesis
    proof (cases as)
      case Nil
      with False 2(4) show ?thesis by simp
    next
      case (Cons d r)
      with False 2 show ?thesis by simp
    qed
  qed
qed

lemma split_drop_trailing: "py_split (rev (dropWhile py_isspace (rev s))) = py_split s"
  by (induction s rule: rev_induct) (simp_all add: split_snoc_space)

lemma split_strip: "py_split (py_strip s) = py_split s"
  by (simp add: py_strip_def split_drop_trailing split_dropWhile)

lemma word_ok_Cons: "\<not> py_isspace c \<Longrightarrow> word_ok w \<Longrightarrow> word_ok (c # w)"
  by (simp add: word_ok_def)

lemma split_words_ok: "list_all word_ok (py_split s)"
proof (induction s rule: py_split.induct)
  case 1
  show ?case by simp
next
  case (2 a as)
  show ?case
  proof (cases "py_isspace a")
    case True
    with 2(1) show ?thesis by simp
  next
    case False
    then have one: "word_ok [a]" by (simp add: word_ok_def)
    show ?thesis
    proof (cases as)
      case Nil
      with False one show ?thesis by simp
    next
      case (Cons d r)
      note asd = this
      show ?thesis
      proof (cases "py_isspace d")
        case True
        from 2(2) [OF False asd True] have "list_all word_ok (py_split as)" .
        moreover from False asd True have "py_split (a # as) = [a] # py_split as" by simp
        ultimately show ?thesis using one by simp
      next
        case nd: False
        from 2(3) [OF False asd nd] have ih: "list_all word_ok (py_split as)" .
        show ?thesis
        proof (cases "py_split as")
          case Nil
          with False asd nd have "py_split (a # as) = [[a]]" by simp
          with one show ?thesis by simp
        next
          case (Cons v vs)
          with False asd nd have "py_split (a # as) = (a # v) # vs" by simp
          moreover from ih Cons have "word_ok v" "list_all word_ok vs" by simp_all
          ultimately show ?thesis using False by (simp add: word_ok_Cons)
        qed
      qed
    qed
  qed
qed

subsection \<open>Joining and the whitespace substitution\<close>

lemma join_Cons_Cons: "py_join sep ((c # w) # ws) = c # py_join sep (w # ws)"
  by (cases ws) simp_all

lemma join_Cons: "ws \<noteq> [] \<Longrightarrow> py_join sep (w # ws) = w @ sep @ py_join sep ws"
  by (cases ws) simp_all

lemma sub_ws_as_join:
  "s = [] \<or> \<not> py_isspace (last s) \<Longrightarrow>
   re_sub_ws s = (if s \<noteq> [] \<and> py_isspace (hd s) then [32] else []) @ py_join [32] (py_split s)"
proof (induction s rule: re_sub_ws.induct)
  case 1
  then show ?case by simp
next
  case (2 c cs)
  show ?case
  proof (cases "py_isspace c")
    case True
    let ?d = "dropWhile py_isspace cs"
    from True 2(3) have cne: "cs \<noteq> []" and lcs: "\<not> py_isspace (last cs)"
      by (auto split: if_splits)
    then have "\<exists>x \<in> set cs. \<not> py_isspace x" using last_in_set by blast
    then have dne: "?d \<noteq> []" by (simp add: dropWhile_eq_Nil_conv)
    then have hd: "\<not> py_isspace (hd ?d)" by (rule hd_dropWhile)
    from dne have "last ?d = last cs" by (rule last_dropWhile_keep)
    with lcs have "\<not> py_isspace (last ?d)" by simp
    with 2(1) [OF True] hd dne have "re_sub_ws ?d = py_join [32] (py_split ?d)" by simp
    with True show ?thesis by (simp add: split_dropWhile)
  next
    case False
    show ?thesis
    proof (cases cs)
      case Nil
      with False show ?thesis by simp
    next
      case (Cons d r)
      with 2(3) have "\<not> py_isspace (last cs)" by simp
      with 2(2) [OF False] Cons
      have ih: "re_sub_ws cs = (if py_isspace d then [32] else []) @ py_join [32] (py_split cs)"
        by simp
      from Cons \<open>\<not> py_isspace (last cs)\<close> have "\<exists>x \<in> set cs. \<not> py_isspace x"
        using last_in_set by blast
      then have ne: "py_split cs \<noteq> []" by (simp add: split_Nil_iff)
      then obtain w ws where ws: "py_split cs = w # ws" by (cases "py_split cs") auto
      show ?thesis
      proof (cases "py_isspace d")
        case True
        with False Cons ih ne show ?thesis by (simp add: join_Cons)
      next
        case nsp: False
        with False Cons ih ws show ?thesis by (simp add: join_Cons_Cons)
      qed
    qed
  qed
qed

lemma sub_ws_strip_join: "re_sub_ws (py_strip s) = py_join [32] (py_split s)"
proof -
  have t: "trimmed (py_strip s)" by (rule trimmed_strip)
  then have "py_strip s = [] \<or> \<not> py_isspace (last (py_strip s))" by (auto simp: trimmed_def)
  from sub_ws_as_join [OF this] t show ?thesis
    by (auto simp: trimmed_def split_strip)
qed


subsection \<open>Cleaned strings\<close>

lemma space_32: "py_isspace 32"
  by (simp add: py_isspace_def)

lemma single_spaced_Cons:
  "single_spaced (c # t) \<longleftrightarrow>
     (py_isspace c \<longrightarrow> c = 32 \<and> (t = [] \<or> \<not> py_isspace (hd t))) \<and> single_spaced t"
  by (cases t) auto

lemma sub_ws_Nil_iff: "re_sub_ws s = [] \<longleftrightarrow> s = []"
  by (cases s) simp_all

lemma hd_sub_ws: "s \<noteq> [] \<Longrightarrow> \<not> py_isspace (hd s) \<Longrightarrow> hd (re_sub_ws s) = hd s"
  by (cases s) simp_all

lemma single_spaced_fixed: "single_spaced s \<Longrightarrow> re_sub_ws s = s"
  by (induction s rule: single_spaced.induct) (auto simp: space_32)

lemma single_spaced_sub_ws: "single_spaced (re_sub_ws s)"
proof (induction s rule: re_sub_ws.induct)
  case 1
  show ?case by simp
next
  case (2 c cs)
  show ?case
  proof (cases "py_isspace c")
    case True
    let ?d = "dropWhile py_isspace cs"
    have "re_sub_ws ?d = [] \<or> \<not> py_isspace (hd (re_sub_ws ?d))"
    proof (cases "?d = []")
      case True
      then show ?thesis by (simp only: re_sub_ws.simps) simp
    next
      case False
      then have nh: "\<not> py_isspace (hd ?d)" by (rule hd_dropWhile)
      from hd_sub_ws [OF False nh] nh show ?thesis by (simp only:) simp
    qed
    with True 2(1) [OF True] show ?thesis by (simp add: single_spaced_Cons)
  next
    case False
    with 2(2) [OF False] show ?thesis by (simp add: single_spaced_Cons)
  qed
qed

lemma length_sub_ws: "length (re_sub_ws s) \<le> length s"
proof (induction s rule: re_sub_ws.induct)
  case 1
  show ?case by simp
next
  case (2 c cs)
  show ?case
  proof (cases "py_isspace c")
    case True
    from 2(1) [OF True] have "length (re_sub_ws (dropWhile py_isspace cs)) \<le> length cs"
      using length_dropWhile_le [of py_isspace cs] by linarith
    with True show ?thesis by simp
  next
    case False
    with 2(2) [OF False] show ?thesis by simp
  qed
qed

lemma trimmed_sub_ws: "trimmed s \<Longrightarrow> trimmed (re_sub_ws s)"
proof -
  assume t: "trimmed s"
  then have "py_strip s = s" by (rule trimmed_strip_id)
  then have eq: "re_sub_ws s = py_join [32] (py_split s)"
    using sub_ws_strip_join [of s] by simp
  show ?thesis
  proof (cases s)
    case Nil
    then show ?thesis by (simp add: trimmed_def)
  next
    case (Cons c cs)
    with t have h: "\<not> py_isspace (hd s)" and l: "\<not> py_isspace (last s)" and ne: "s \<noteq> []"
      by (simp_all add: trimmed_def)
    have "last (re_sub_ws s) = last s" using ne l
    proof (induction s rule: re_sub_ws.induct)
      case 1
      then show ?case by simp
    next
      case (2 c cs)
      show ?case
      proof (cases "py_isspace c")
        case True
        let ?d = "dropWhile py_isspace cs"
        from True 2(4) have cne: "cs \<noteq> []" and lcs: "\<not> py_isspace (last cs)"
          by (auto split: if_splits)
        then have "\<exists>x \<in> set cs. \<not> py_isspace x" using last_in_set by blast
        then have dne: "?d \<noteq> []" by (simp add: dropWhile_eq_Nil_conv)
        then have ld: "last ?d = last cs" by (rule last_dropWhile_keep)
        with lcs 2(1) [OF True dne] have "last (re_sub_ws ?d) = last cs" by simp
        moreover from dne have "re_sub_ws ?d \<noteq> []" by (simp only: sub_ws_Nil_iff) simp
        ultimately show ?thesis using True cne by simp
      next
        case False
        show ?thesis
        proof (cases cs)
          case Nil
          with False show ?thesis by simp
        next
          case (Cons d r)
          with 2(4) have "\<not> py_isspace (last cs)" by simp
          with 2(2) [OF False] Cons have "last (re_sub_ws cs) = last cs" by simp
          moreover from Cons have "re_sub_ws cs \<noteq> []" by (simp only: sub_ws_Nil_iff) simp
          ultimately show ?thesis using False Cons by simp
        qed
      qed
    qed
    moreover from ne h have "hd (re_sub_ws s) = hd s" by (rule hd_sub_ws)
    ultimately show ?thesis using h l by (simp add: trimmed_def)
  qed
qed

lemma trimmed_refined: "trimmed (refined_text cfg c)"
  by (simp add: refined_text_def trimmed_sub_ws trimmed_strip)

lemma length_slice_to: "0 \<le> n \<Longrightarrow> int (length (py_slice_to xs n)) \<le> n"
  by (simp add: py_slice_to_def)

lemma length_refined: "0 \<le> MAX_REFINED_TEXT_LENGTH cfg \<Longrightarrow>
  int (length (refined_text cfg c)) \<le> MAX_REFINED_TEXT_LENGTH cfg"
proof -
  assume n: "0 \<le> MAX_REFINED_TEXT_LENGTH cfg"
  let ?p = "py_slice_to c (MAX_REFINED_TEXT_LENGTH cfg)"
  have "length (refined_text cfg c) \<le> length (py_strip ?p)"
    by (simp add: refined_text_def length_sub_ws)
  also have "\<dots> \<le> length ?p" by (rule length_strip_le)
  finally show ?thesis using length_slice_to [OF n, of c] by linarith
qed

lemma slice_to_short: "int (length xs) \<le> n \<Longrightarrow> py_slice_to xs n = xs"
  by (simp add: py_slice_to_def)

lemma cleaned_fixed: "is_cleaned cfg s \<Longrightarrow> refined_text cfg s = s"
  by (simp add: is_cleaned_def refined_text_def slice_to_short trimmed_strip_id single_spaced_fixed)

lemma refined_cleaned: "0 \<le> MAX_REFINED_TEXT_LENGTH cfg \<Longrightarrow> is_cleaned cfg (refined_text cfg c)"
  unfolding is_cleaned_def
  by (simp add: length_refined trimmed_refined) (simp add: refined_text_def single_spaced_sub_ws)


subsection \<open>The last word of a cut\<close>


lemma split_snoc_char:
  "\<not> py_isspace c \<Longrightarrow>
   py_split (s @ [c]) =
     (if s = [] \<or> py_isspace (last s) then py_split s @ [[c]]
      else butlast (py_split s) @ [last (py_split s) @ [c]])"
proof (induction s rule: py_split.induct)
  case 1
  then show ?case by simp
next
  case (2 a as)
  note nc = 2(4)
  show ?case
  proof (cases "py_isspace a")
    case True
    from 2(1) [OF True nc] True show ?thesis by (cases as) simp_all
  next
    case na: False
    show ?thesis
    proof (cases as)
      case Nil
      with na nc show ?thesis by simp
    next
      case (Cons d r)
      note asd = this
      have ls: "last (a # as) = last as" using asd by simp
      show ?thesis
      proof (cases "py_isspace d")
        case True
        note ih = 2(2) [OF na asd True nc]
        have sp: "py_split (a # as) = [a] # py_split as" using na asd True by simp
        have sp': "py_split ((a # as) @ [c]) = [a] # py_split (as @ [c])"
          using na asd True by simp
        show ?thesis
        proof (cases "py_isspace (last as)")
          case True
          with ih asd sp sp' ls show ?thesis by simp
        next
          case False
          then have "\<exists>x \<in> set as. \<not> py_isspace x" using asd last_in_set by blast
          then have "py_split as \<noteq> []" by (simp add: split_Nil_iff)
          with False ih asd sp sp' ls show ?thesis by simp
        qed
      next
        case nd: False
        note ih = 2(3) [OF na asd nd nc]
        have "\<exists>x \<in> set as. \<not> py_isspace x" using asd nd by auto
        then have "py_split as \<noteq> []" by (simp only: split_Nil_iff) simp
        then obtain v vs where vs: "py_split as = v # vs" by (cases "py_split as") auto
        have sp: "py_split (a # as) = (a # v) # vs" using na asd nd vs by simp
        have sp': "py_split ((a # as) @ [c]) =
                    (case py_split (as @ [c]) of [] \<Rightarrow> [[a]] | w # ws \<Rightarrow> (a # w) # ws)"
          using na asd nd by simp
        show ?thesis
        proof (cases "py_isspace (last as)")
          case True
          with ih asd vs have "py_split (as @ [c]) = v # (vs @ [[c]])" by simp
          with sp sp' True ls show ?thesis by simp
        next
          case False
          with ih asd vs have e: "py_split (as @ [c]) = butlast (v # vs) @ [last (v # vs) @ [c]]"
            by simp
          show ?thesis
          proof (cases vs)
            case Nil
            with e sp sp' False ls show ?thesis by simp
          next
            case (Cons u us)
            with e sp sp' False ls show ?thesis by simp
          qed
        qed
      qed
    qed
  qed
qed

lemma last_word_fragment:
  "p \<noteq> [] \<Longrightarrow> \<not> py_isspace (last p) \<Longrightarrow>
   py_split p \<noteq> [] \<and> last (py_split p) = rev (takeWhile (\<lambda>c. \<not> py_isspace c) (rev p))"
proof (induction p rule: rev_induct)
  case Nil
  then show ?case by simp
next
  case (snoc c s)
  then have nc: "\<not> py_isspace c" by simp
  show ?case
  proof (cases "s = [] \<or> py_isspace (last s)")
    case True
    then have "takeWhile (\<lambda>c. \<not> py_isspace c) (rev s) = []"
      by (cases s rule: rev_cases) auto
    with True nc split_snoc_char [OF nc, of s] show ?thesis by simp
  next
    case False
    with snoc.IH have "py_split s \<noteq> []"
      and "last (py_split s) = rev (takeWhile (\<lambda>c. \<not> py_isspace c) (rev s))" by simp_all
    with False nc split_snoc_char [OF nc, of s] show ?thesis by simp
  qed
qed

lemma join_ends_with_last: "ws \<noteq> [] \<Longrightarrow> \<exists>pre. py_join sep ws = pre @ last ws"
proof (induction ws)
  case Nil
  then show ?case by simp
next
  case (Cons w ws)
  show ?case
  proof (cases ws)
    case Nil
    then show ?thesis by simp
  next
    case (Cons v vs)
    with Cons.IH obtain pre where "py_join sep ws = pre @ last ws" by auto
    with Cons have "py_join sep (w # ws) = (w @ sep @ pre) @ last (w # ws)" by simp
    then show ?thesis by blast
  qed
qed

lemma refined_text_as_words:
  "refined_text cfg c = py_join [32] (py_split (py_slice_to c (MAX_REFINED_TEXT_LENGTH cfg)))"
  by (simp add: refined_text_def sub_ws_strip_join)

lemma refined_text_keeps_fragment:
  assumes "py_slice_to c (MAX_REFINED_TEXT_LENGTH cfg) \<noteq> []"
    and "\<not> py_isspace (last (py_slice_to c (MAX_REFINED_TEXT_LENGTH cfg)))"
  shows "\<exists>pre. refined_text cfg c =
           pre @ rev (takeWhile (\<lambda>x. \<not> py_isspace x)
                        (rev (py_slice_to c (MAX_REFINED_TEXT_LENGTH cfg))))"
  using last_word_fragment [OF assms] join_ends_with_last refined_text_as_words
  by metis


section \<open>Properties of the report\<close>

lemma length_extracted_loop: "length (extracted_loop i items) = length items"
  by (induction items arbitrary: i) simp_all

lemma length_analysis_loop: "length (analysis_loop cfg items) = length items"
  by (induction items) simp_all

lemma nth_extracted_loop:
  "k < length items \<Longrightarrow>
   extracted_loop i items ! k =
     \<lparr>es_document = document (section (items ! k)),
      es_section_title = title (section (items ! k)),
      es_importance_rank = i + int k,
      es_page_number = page_number (section (items ! k))\<rparr>"
proof (induction items arbitrary: i k)
  case Nil
  then show ?case by simp
next
  case (Cons item items)
  show ?case
  proof (cases k)
    case 0
    then show ?thesis by simp
  next
    case (Suc j)
    with Cons.prems have "j < length items" by simp
    from Cons.IH [OF this, of "i + 1"] Suc show ?thesis by simp
  qed
qed

lemma nth_analysis_loop:
  "k < length items \<Longrightarrow>
   analysis_loop cfg items ! k =
     \<lparr>sa_document = document (section (items ! k)),
      sa_refined_text = refined_text cfg (content (section (items ! k))),
      sa_page_number = page_number (section (items ! k))\<rparr>"
proof (induction items arbitrary: k)
  case Nil
  then show ?case by simp
next
  case (Cons item items)
  then show ?case by (cases k) simp_all
qed




text \<open>
  Claim C5. In the report of \<^verbatim>\<open>create_output_json\<close> the lists
  \<^verbatim>\<open>extracted_sections\<close> and \<^verbatim>\<open>subsection_analysis\<close> have the same length, the
  entries at position \<open>i\<close> are both built from the section of the \<open>i\<close>-th scored
  section (so their document and page number agree), and the importance rank at position
  \<open>i\<close> is \<open>i + 1\<close>.
\<close>

theorem report_alignment:
  "let r = create_output_json cfg now input_data relevant_sections in
     length (extracted_sections r) = length (subsection_analysis r) \<and>
     length (extracted_sections r) = length relevant_sections \<and>
     (\<forall>i < length relevant_sections.
        es_document (extracted_sections r ! i) = document (section (relevant_sections ! i)) \<and>
        es_section_title (extracted_sections r ! i) = title (section (relevant_sections ! i)) \<and>
        es_page_number (extracted_sections r ! i) =
          page_number (section (relevant_sections ! i)) \<and>
        sa_document (subsection_analysis r ! i) = document (section (relevant_sections ! i)) \<and>
        sa_refined_text (subsection_analysis r ! i) =
          refined_text cfg (content (section (relevant_sections ! i))) \<and>
        sa_page_number (subsection_analysis r ! i) =
          page_number (section (relevant_sections ! i)) \<and>
        es_document (extracted_sections r ! i) = sa_document (subsection_analysis r ! i) \<and>
        es_page_number (extracted_sections r ! i) = sa_page_number (subsection_analysis r ! i) \<and>
        es_importance_rank (extracted_sections r ! i) = int i + 1)"
  unfolding create_output_json_def
  by (simp add: Let_def length_extracted_loop length_analysis_loop nth_extracted_loop
      nth_analysis_loop)

theorem report_alignment_witness:
  "let rs = [\<lparr>section = \<lparr>title = cp ''Costs'', content = cp ''Rent and fees'', page_number = 3,
                           document = cp ''a.pdf''\<rparr>,
              similarity = (5::int), index = 1\<rparr>,
            \<lparr>section = \<lparr>title = cp ''Dates'', content = cp ''May to June'', page_number = 1,
                           document = cp ''b.pdf''\<rparr>,
              similarity = 2, index = 0\<rparr>];
       r = create_output_json default_config (cp ''2026'')
             \<lparr>documents = [], persona_role = [], job_task = [], challenge_info = None\<rparr> rs
   in (1::nat) < length rs \<and>
      length (extracted_sections r) = 2 \<and> length (subsection_analysis r) = 2 \<and>
      es_document (extracted_sections r ! 1) = cp ''b.pdf'' \<and>
      sa_document (subsection_analysis r ! 1) = cp ''b.pdf'' \<and>
      es_page_number (extracted_sections r ! 1) = 1 \<and>
      sa_page_number (subsection_analysis r ! 1) = 1 \<and>
      es_importance_rank (extracted_sections r ! 0) = 1 \<and>
      es_importance_rank (extracted_sections r ! 1) = 2"
  using report_alignment [of default_config "cp ''2026''"
      "\<lparr>documents = [], persona_role = [], job_task = [], challenge_info = None\<rparr>"
      "[\<lparr>section = \<lparr>title = cp ''Costs'', content = cp ''Rent and fees'', page_number = 3,
                           document = cp ''a.pdf''\<rparr>,
              similarity = (5::int), index = 1\<rparr>,
            \<lparr>section = \<lparr>title = cp ''Dates'', content = cp ''May to June'', page_number = 1,
                           document = cp ''b.pdf''\<rparr>,
              similarity = 2, index = 0\<rparr>]"]
  by (simp add: Let_def create_output_json_def cp_def)

text \<open>
  Claim C10. Every \<^verbatim>\<open>refined_text\<close> of the report is trimmed: it is empty, or it
  neither starts nor ends with a whitespace character. The strip runs on the truncated
  content, so this holds wherever the cut falls.
\<close>

theorem refined_text_trimmed:
  "\<forall>a \<in> set (subsection_analysis (create_output_json cfg now input_data relevant_sections)).
     sa_refined_text a = [] \<or>
     (\<not> py_isspace (hd (sa_refined_text a)) \<and> \<not> py_isspace (last (sa_refined_text a)))"
proof -
  have "\<forall>a \<in> set (analysis_loop cfg relevant_sections). trimmed (sa_refined_text a)"
    by (induction relevant_sections) (simp_all add: trimmed_refined)
  then show ?thesis by (simp add: create_output_json_def trimmed_def)
qed

theorem refined_text_trimmed_witness:
  "let r = create_output_json (default_config\<lparr>MAX_REFINED_TEXT_LENGTH := 7\<rparr>) (cp ''2026'')
             \<lparr>documents = [], persona_role = [], job_task = [], challenge_info = None\<rparr>
             [\<lparr>section = \<lparr>title = cp ''Costs'', content = cp ''Rent    and fees'',
                           page_number = 3, document = cp ''a.pdf''\<rparr>,
               similarity = (5::int), index = 0\<rparr>]
   in py_slice_to (cp ''Rent    and fees'') 7 = cp ''Rent   '' \<and>
      map sa_refined_text (subsection_analysis r) = [cp ''Rent''] \<and>
      (\<forall>a \<in> set (subsection_analysis r).
         sa_refined_text a = [] \<or>
         (\<not> py_isspace (hd (sa_refined_text a)) \<and> \<not> py_isspace (last (sa_refined_text a))))"
  using refined_text_trimmed [of "default_config\<lparr>MAX_REFINED_TEXT_LENGTH := 7\<rparr>" "cp ''2026''"
      "\<lparr>documents = [], persona_role = [], job_task = [], challenge_info = None\<rparr>"
      "[\<lparr>section = \<lparr>title = cp ''Costs'', content = cp ''Rent    and fees'',
                           page_number = 3, document = cp ''a.pdf''\<rparr>,
               similarity = (5::int), index = 0\<rparr>]"]
  by (simp add: Let_def create_output_json_def refined_text_def default_config_def cp_def
      py_slice_to_def py_strip_def py_isspace_def)

text \<open>
  Claim C7. Each \<^verbatim>\<open>refined_text\<close> of the report is computed from the hard cut of the
  content: the cut is the first \<^verbatim>\<open>MAX_REFINED_TEXT_LENGTH\<close> characters, wherever that
  falls; the whitespace substitution runs afterwards, on the (stripped) cut, so the result
  is the words of the cut joined by single spaces; and when the cut ends in a
  non-whitespace character, the result ends with the last, possibly partial, word of
  the cut.
\<close>

theorem refined_text_cut_then_collapse:
  "\<forall>i < length relevant_sections.
     (let c = content (section (relevant_sections ! i));
          cut = py_slice_to c (MAX_REFINED_TEXT_LENGTH cfg);
          t = sa_refined_text
                (subsection_analysis (create_output_json cfg now input_data relevant_sections) ! i)
      in (0 \<le> MAX_REFINED_TEXT_LENGTH cfg \<longrightarrow> cut = take (nat (MAX_REFINED_TEXT_LENGTH cfg)) c) \<and>
         t = re_sub_ws (py_strip cut) \<and>
         t = py_join [32] (py_split cut) \<and>
         (cut \<noteq> [] \<and> \<not> py_isspace (last cut) \<longrightarrow>
            (\<exists>pre. t = pre @ rev (takeWhile (\<lambda>x. \<not> py_isspace x) (rev cut)))))"
proof (intro allI impI)
  fix i
  assume i: "i < length relevant_sections"
  let ?c = "content (section (relevant_sections ! i))"
  have t: "sa_refined_text
             (subsection_analysis (create_output_json cfg now input_data relevant_sections) ! i)
           = refined_text cfg ?c"
    using i by (simp add: create_output_json_def nth_analysis_loop)
  show "let c = ?c;
          cut = py_slice_to c (MAX_REFINED_TEXT_LENGTH cfg);
          t = sa_refined_text
                (subsection_analysis (create_output_json cfg now input_data relevant_sections) ! i)
      in (0 \<le> MAX_REFINED_TEXT_LENGTH cfg \<longrightarrow> cut = take (nat (MAX_REFINED_TEXT_LENGTH cfg)) c) \<and>
         t = re_sub_ws (py_strip cut) \<and>
         t = py_join [32] (py_split cut) \<and>
         (cut \<noteq> [] \<and> \<not> py_isspace (last cut) \<longrightarrow>
            (\<exists>pre. t = pre @ rev (takeWhile (\<lambda>x. \<not> py_isspace x) (rev cut))))"
    unfolding Let_def t
    using refined_text_keeps_fragment [of ?c cfg]
    by (simp add: refined_text_as_words [symmetric]) (simp add: refined_text_def py_slice_to_def)
qed

theorem refined_text_cut_then_collapse_witness:
  "let rs = [\<lparr>section = \<lparr>title = cp ''Costs'', content = cp ''Rent   and  fees'',
                           page_number = 3, document = cp ''a.pdf''\<rparr>,
              similarity = (5::int), index = 0\<rparr>];
       cfg = default_config\<lparr>MAX_REFINED_TEXT_LENGTH := 14\<rparr>;
       r = create_output_json cfg (cp ''2026'')
             \<lparr>documents = [], persona_role = [], job_task = [], challenge_info = None\<rparr> rs
   in (0::nat) < length rs \<and> (0::int) \<le> MAX_REFINED_TEXT_LENGTH cfg \<and>
      py_slice_to (cp ''Rent   and  fees'') 14 = cp ''Rent   and  fe'' \<and>
      \<not> py_isspace (last (cp ''Rent   and  fe'')) \<and>
      rev (takeWhile (\<lambda>x. \<not> py_isspace x) (rev (cp ''Rent   and  fe''))) = cp ''fe'' \<and>
      sa_refined_text (subsection_analysis r ! 0) = cp ''Rent and fe''"
  using refined_text_cut_then_collapse [of
      "[\<lparr>section = \<lparr>title = cp ''Costs'', content = cp ''Rent   and  fees'',
                           page_number = 3, document = cp ''a.pdf''\<rparr>,
              similarity = (5::int), index = 0\<rparr>]"
      "default_config\<lparr>MAX_REFINED_TEXT_LENGTH := 14\<rparr>" "cp ''2026''"
      "\<lparr>documents = [], persona_role = [], job_task = [], challenge_info = None\<rparr>"]
  by (simp add: Let_def create_output_json_def refined_text_def default_config_def cp_def
      py_slice_to_def py_strip_def py_isspace_def)

text \<open>
  Claim C8. The transform behind \<^verbatim>\<open>refined_text\<close> leaves every cleaned string as it
  is. When \<^verbatim>\<open>MAX_REFINED_TEXT_LENGTH\<close> is not negative, every output of the transform is
  cleaned, so that applying the transform to its own output changes nothing.
\<close>

theorem refined_text_idempotent:
  "(is_cleaned cfg s \<longrightarrow> refined_text cfg s = s) \<and>
   (0 \<le> MAX_REFINED_TEXT_LENGTH cfg \<longrightarrow>
      is_cleaned cfg (refined_text cfg s) \<and>
      refined_text cfg (refined_text cfg s) = refined_text cfg s)"
  using cleaned_fixed refined_cleaned by blast

theorem refined_text_idempotent_witness:
  "let cfg = default_config\<lparr>MAX_REFINED_TEXT_LENGTH := 14\<rparr> in
     (0::int) \<le> MAX_REFINED_TEXT_LENGTH cfg \<and>
     is_cleaned cfg (cp ''Rent and fe'') \<and>
     refined_text cfg (cp ''Rent and fe'') = cp ''Rent and fe'' \<and>
     refined_text cfg (cp ''Rent   and  fees'') = cp ''Rent and fe'' \<and>
     refined_text cfg (refined_text cfg (cp ''Rent   and  fees'')) =
       refined_text cfg (cp ''Rent   and  fees'')"
  using refined_text_idempotent [of "default_config\<lparr>MAX_REFINED_TEXT_LENGTH := 14\<rparr>"
      "cp ''Rent and fe''"]
    refined_text_idempotent [of "default_config\<lparr>MAX_REFINED_TEXT_LENGTH := 14\<rparr>"
      "cp ''Rent   and  fees''"]
  by (simp add: Let_def is_cleaned_def trimmed_def refined_text_def default_config_def cp_def
      py_slice_to_def py_strip_def py_isspace_def)



section \<open>Properties of the section extraction\<close>


subsection \<open>What the patterns match\<close>

lemma match_star_one_end:
  "p 10 \<Longrightarrow> re_match [Star p, One p, End_of_string] s \<longleftrightarrow> s \<noteq> [] \<and> list_all p s"
  by (induction s) auto

lemma title_case_pattern_iff:
  "re_match title_case_pattern s \<longleftrightarrow>
     2 \<le> length s \<and> capital (hd s) \<and> list_all not_sentence_end (tl s)"
proof (cases s)
  case Nil
  then show ?thesis by (simp add: title_case_pattern_def)
next
  case (Cons c cs)
  have "not_sentence_end 10" by (simp add: not_sentence_end_def)
  from match_star_one_end [of not_sentence_end cs, OF this] Cons show ?thesis
    by (cases cs) (auto simp: title_case_pattern_def)
qed

lemma capital_not_space: "capital c \<Longrightarrow> \<not> py_isspace c"
  by (auto simp: capital_def py_isspace_def)

lemma match_spaces_capital:
  "re_match [Star py_isspace, One capital] s \<longleftrightarrow>
     (case dropWhile py_isspace s of [] \<Rightarrow> False | d # r \<Rightarrow> capital d)"
  by (induction s) (auto dest: capital_not_space)

lemma bullet_pattern_iff:
  "re_match bullet_pattern s \<longleftrightarrow>
     (case s of
        [] \<Rightarrow> False
      | c # cs \<Rightarrow> (c = 8226 \<or> c = 45 \<or> c = 42) \<and>
                 (case dropWhile py_isspace cs of [] \<Rightarrow> False | d # r \<Rightarrow> capital d))"
  by (cases s) (simp_all add: bullet_pattern_def match_spaces_capital)

lemma match_digits_then:
  assumes "\<not> is_decimal U 46" "\<not> is_decimal U 41"
  shows "re_match [Star (is_decimal U), One (\<lambda>c. c = 46 \<or> c = 41), Star py_isspace, One capital] s
         \<longleftrightarrow> (case dropWhile (is_decimal U) s of
                [] \<Rightarrow> False
              | d # r \<Rightarrow> (d = 46 \<or> d = 41) \<and>
                         (case dropWhile py_isspace r of [] \<Rightarrow> False | e # x \<Rightarrow> capital e))"
  using assms by (induction s) (auto simp: match_spaces_capital)

lemma numbered_pattern_iff:
  assumes "\<not> is_decimal U 46" "\<not> is_decimal U 41"
  shows "re_match (numbered_pattern U) s \<longleftrightarrow>
     (case s of
        [] \<Rightarrow> False
      | c # cs \<Rightarrow> is_decimal U c \<and>
          (case dropWhile (is_decimal U) cs of
             [] \<Rightarrow> False
           | d # r \<Rightarrow> (d = 46 \<or> d = 41) \<and>
                      (case dropWhile py_isspace r of [] \<Rightarrow> False | e # x \<Rightarrow> capital e)))"
  using match_digits_then [OF assms] by (cases s) (simp_all add: numbered_pattern_def)

subsection \<open>Criteria of the heading test\<close>

lemma first_match_iff: "first_match ps line \<longleftrightarrow> (\<exists>p \<in> set ps. p line)"
  by (induction ps) auto

lemma is_heading_iff:
  "is_heading U cfg line \<longleftrightarrow>
     int (length line) < MAX_HEADING_LENGTH cfg \<and>
     (all_caps U line \<or> title_case cfg line \<or> colon_heading line \<or>
      numbered_heading U line \<or> bullet_heading line)"
  by (simp add: is_heading_def all_caps_def title_case_def colon_heading_def
      numbered_heading_def bullet_heading_def)

lemma any_criterion_iff:
  "(\<exists>p \<in> set (criteria U cfg). p line) \<longleftrightarrow>
     all_caps U line \<or> title_case cfg line \<or> colon_heading line \<or>
     numbered_heading U line \<or> bullet_heading line"
  by (simp add: criteria_def)



subsection \<open>Sections of the three strategies\<close>


lemma strip_strip: "py_strip (py_strip s) = py_strip s"
  by (rule trimmed_strip_id) (rule trimmed_strip)

lemma flush_long_enough: "s \<in> set (flush page m t c) \<Longrightarrow> long_enough m s"
  by (auto simp: flush_def long_enough_def strip_strip split: if_splits)

lemma heading_step_long_enough:
  assumes "\<forall>s \<in> set (fst st). long_enough m s"
  shows "\<forall>s \<in> set (fst (heading_step U cfg page m st raw)). long_enough m s"
proof -
  obtain secs t c where st: "st = (secs, t, c)" by (cases st)
  with assms show ?thesis
    by (auto simp: heading_step_def Let_def dest: flush_long_enough)
qed

lemma heading_loop_long_enough:
  "\<forall>s \<in> set (fst st). long_enough m s \<Longrightarrow>
   \<forall>s \<in> set (fst (foldl (heading_step U cfg page m) st ls)). long_enough m s"
proof (induction ls arbitrary: st)
  case Nil
  then show ?case by simp
next
  case (Cons l ls)
  from Cons.prems have "\<forall>s \<in> set (fst (heading_step U cfg page m st l)). long_enough m s"
    by (rule heading_step_long_enough)
  from Cons.IH [OF this] show ?case by simp
qed

lemma heading_sections_long_enough:
  "s \<in> set (heading_sections U cfg text page m) \<Longrightarrow> long_enough m s"
proof -
  assume a: "s \<in> set (heading_sections U cfg text page m)"
  obtain secs t c where f: "foldl (heading_step U cfg page m) ([], [], []) (split_newline text)
                            = (secs, t, c)"
    by (cases "foldl (heading_step U cfg page m) ([], [], []) (split_newline text)")
  have "\<forall>s \<in> set (fst (foldl (heading_step U cfg page m) ([], [], []) (split_newline text))).
          long_enough m s"
    by (rule heading_loop_long_enough) simp
  with f have "\<forall>s \<in> set secs. long_enough m s" by simp
  with a f show ?thesis by (auto simp: heading_sections_def dest: flush_long_enough)
qed

lemma paragraphs_trimmed: "p \<in> set (paragraphs_of text) \<Longrightarrow> trimmed p \<and> p \<noteq> []"
  by (auto simp: paragraphs_of_def trimmed_strip)

lemma paragraph_section_fields:
  "title (paragraph_section page p) =
     py_join [32] (take 8 (py_split p)) @ (if 8 < length (py_split p) then cp ''...'' else [])"
  "content (paragraph_section page p) = p"
  "page_number (paragraph_section page p) = page"
  by (simp_all add: paragraph_section_def Let_def py_slice_to_def)

lemma paragraph_sections_eq:
  "paragraph_sections secs ps page m =
     (if secs = [] then map (paragraph_section page) (filter (\<lambda>p. m \<le> int (length p)) ps)
      else [])"
proof -
  have "concat (map (\<lambda>p. if m \<le> int (length p) then [paragraph_section page p] else []) ps)
        = map (paragraph_section page) (filter (\<lambda>p. m \<le> int (length p)) ps)"
    by (induction ps) simp_all
  then show ?thesis by (cases ps) (simp_all add: paragraph_sections_def)
qed

lemma paragraph_sections_long_enough:
  assumes "s \<in> set (paragraph_sections secs (paragraphs_of text) page m)"
  shows "long_enough m s"
proof -
  from assms obtain p where p: "p \<in> set (paragraphs_of text)" "m \<le> int (length p)"
    and s: "s = paragraph_section page p"
    by (auto simp: paragraph_sections_eq split: if_splits)
  from p(1) have "py_strip p = p" by (simp add: paragraphs_trimmed trimmed_strip_id)
  with p(2) s show ?thesis by (simp add: long_enough_def paragraph_section_fields)
qed

lemma whole_page_long_enough:
  "s \<in> set (whole_page_sections secs text page m) \<Longrightarrow> long_enough m s"
  by (auto simp: whole_page_sections_def Let_def long_enough_def strip_strip split: if_splits)

lemma extract_eq:
  "extract_sections_from_text U cfg text page msl =
     (let m = threshold cfg msl;
          H = heading_sections U cfg text page m;
          P = paragraph_sections H (paragraphs_of text) page m;
          W = whole_page_sections (H @ P) text page m
      in H @ P @ W)"
  by (simp add: extract_sections_from_text_def Let_def)



lemmas extract_eval =
  extract_sections_from_text_def heading_sections_def heading_step_def flush_def
  paragraphs_of_def paragraph_sections_def paragraph_section_def whole_page_sections_def
  threshold_def Let_def is_heading_def py_isupper_def ends_with_colon_def
  title_case_pattern_def numbered_pattern_def bullet_pattern_def capital_def
  not_sentence_end_def ascii_tables_def default_config_def py_strip_def py_slice_to_def
  py_isspace_def cp_def

text \<open>
  Claim C3. Every section returned by \<^verbatim>\<open>extract_sections_from_text\<close>, whichever
  strategy made it, has a content whose stripped length is at least the threshold
  (the argument \<^verbatim>\<open>min_section_length\<close>, or \<^verbatim>\<open>MIN_SECTION_LENGTH\<close> when it is left
  out).
\<close>

theorem sections_meet_threshold:
  "\<forall>s \<in> set (extract_sections_from_text U cfg text page min_section_length).
     threshold cfg min_section_length \<le> int (length (py_strip (content s)))"
proof
  fix s
  assume "s \<in> set (extract_sections_from_text U cfg text page min_section_length)"
  then have "long_enough (threshold cfg min_section_length) s"
    unfolding extract_eq Let_def
    using heading_sections_long_enough paragraph_sections_long_enough whole_page_long_enough
    by auto
  then show "threshold cfg min_section_length \<le> int (length (py_strip (content s)))"
    by (simp add: long_enough_def)
qed

theorem sections_meet_threshold_witness:
  "extract_sections_from_text ascii_tables default_config
     (cp ''INTRO'' @ [10] @ cp ''alpha beta gamma'' @ [10] @ cp ''delta '') 1 (Some 10)
     = [\<lparr>title = cp ''INTRO'', content = cp ''alpha beta gamma delta'', page_number = 1\<rparr>] \<and>
   threshold default_config (Some 10) \<le> int (length (py_strip (cp ''alpha beta gamma delta''))) \<and>
   length (cp ''exactly thirty characters long'') = 30 \<and>
   extract_sections_from_text ascii_tables default_config
     (cp ''exactly thirty characters long'') 1 None = []"
proof -
  have f: "length (cp ''exactly thirty characters long'') = 30 \<and>
     extract_sections_from_text ascii_tables default_config
       (cp ''exactly thirty characters long'') 1 None = []"
    by (simp add: extract_eval)
  have e: "extract_sections_from_text ascii_tables default_config
     (cp ''INTRO'' @ [10] @ cp ''alpha beta gamma'' @ [10] @ cp ''delta '') 1 (Some 10)
     = [\<lparr>title = cp ''INTRO'', content = cp ''alpha beta gamma delta'', page_number = 1\<rparr>]"
    by (simp add: extract_eval)
  from sections_meet_threshold [of ascii_tables default_config
      "cp ''INTRO'' @ [10] @ cp ''alpha beta gamma'' @ [10] @ cp ''delta ''" 1 "Some 10"] e f
  show ?thesis by simp
qed


text \<open>
  Claim C4. The result is what the heading strategy found, followed by what the
  paragraph strategy and the whole-page strategy append. The paragraph strategy appends
  something exactly when the heading strategy found nothing and some paragraph reaches
  the threshold; it then appends one section for each such paragraph, whose title is the
  first 8 words joined by spaces, followed by three dots exactly when there are more
  than 8 words, and whose content is the paragraph. The whole-page strategy appends
  something exactly when both earlier strategies gave nothing and the stripped page
  reaches the threshold; it then appends a single section holding the stripped page.
\<close>

theorem strategies_fall_back_in_order:
  "let m = threshold cfg min_section_length;
       H = heading_sections U cfg text page m;
       paragraphs = paragraphs_of text;
       P = paragraph_sections H paragraphs page m;
       W = whole_page_sections (H @ P) text page m
   in extract_sections_from_text U cfg text page min_section_length = H @ P @ W \<and>
      (P \<noteq> [] \<longleftrightarrow> H = [] \<and> (\<exists>p \<in> set paragraphs. m \<le> int (length p))) \<and>
      (H = [] \<longrightarrow>
         P = map (paragraph_section page) (filter (\<lambda>p. m \<le> int (length p)) paragraphs)) \<and>
      (\<forall>p. title (paragraph_section page p) =
             py_join [32] (take 8 (py_split p)) @
               (if 8 < length (py_split p) then cp ''...'' else []) \<and>
           content (paragraph_section page p) = p \<and>
           page_number (paragraph_section page p) = page) \<and>
      (W \<noteq> [] \<longleftrightarrow> H = [] \<and> P = [] \<and> m \<le> int (length (py_strip text))) \<and>
      (W \<noteq> [] \<longrightarrow> length W = 1 \<and> content (hd W) = py_strip text \<and> page_number (hd W) = page) \<and>
      (H \<noteq> [] \<longrightarrow> P = [] \<and> W = [])"
  unfolding Let_def extract_eq
  by (auto simp: paragraph_sections_eq paragraph_section_fields whole_page_sections_def Let_def
      filter_empty_conv)

theorem strategies_fall_back_in_order_witness:
  "(let text = cp ''one two three four five six seven eight nine ten.'' @ [10, 10] @
               cp ''short one.'';
        H = heading_sections ascii_tables default_config text 4 20;
        P = paragraph_sections H (paragraphs_of text) 4 20
    in H = [] \<and> (\<exists>p \<in> set (paragraphs_of text). 20 \<le> int (length p)) \<and>
       P = [\<lparr>title = cp ''one two three four five six seven eight...'',
              content = cp ''one two three four five six seven eight nine ten.'',
              page_number = 4\<rparr>] \<and>
       extract_sections_from_text ascii_tables default_config text 4 (Some 20) = P) \<and>
   (let text = cp ''aaa bbb ccc.'' @ [10, 10] @ cp ''ddd eee fff.'';
        H = heading_sections ascii_tables default_config text 4 20;
        P = paragraph_sections H (paragraphs_of text) 4 20;
        W = whole_page_sections (H @ P) text 4 20
    in H = [] \<and> P = [] \<and> 20 \<le> int (length (py_strip text)) \<and>
       W = [\<lparr>title = cp ''aaa bbb ccc. ddd eee fff.'', content = text, page_number = 4\<rparr>] \<and>
       extract_sections_from_text ascii_tables default_config text 4 (Some 20) = W)"
proof -
  let ?t1 = "cp ''one two three four five six seven eight nine ten.'' @ [10, 10] @
               cp ''short one.''"
  let ?t2 = "cp ''aaa bbb ccc.'' @ [10, 10] @ cp ''ddd eee fff.''"
  let ?s1 = "\<lparr>title = cp ''one two three four five six seven eight...'',
              content = cp ''one two three four five six seven eight nine ten.'',
              page_number = 4\<rparr>"
  let ?s2 = "\<lparr>title = cp ''aaa bbb ccc. ddd eee fff.'', content = ?t2, page_number = 4\<rparr>"
  have h1: "heading_sections ascii_tables default_config ?t1 4 20 = []"
    by (simp add: extract_eval)
  have p1: "paragraphs_of ?t1 = [cp ''one two three four five six seven eight nine ten.'',
                                 cp ''short one.'']"
    by (simp add: extract_eval)
  have q1: "paragraph_sections [] [cp ''one two three four five six seven eight nine ten.'',
                                 cp ''short one.''] 4 20 = [?s1]"
    by (simp add: extract_eval)
  have e1: "extract_sections_from_text ascii_tables default_config ?t1 4 (Some 20) = [?s1]"
    by (simp add: extract_eval)
  have h2: "heading_sections ascii_tables default_config ?t2 4 20 = []"
    by (simp add: extract_eval)
  have p2: "paragraphs_of ?t2 = [cp ''aaa bbb ccc.'', cp ''ddd eee fff.'']"
    by (simp add: extract_eval)
  have q2: "paragraph_sections [] [cp ''aaa bbb ccc.'', cp ''ddd eee fff.''] 4 20 = []"
    by (simp add: extract_eval)
  have w2: "whole_page_sections ([] @ []) ?t2 4 20 = [?s2]"
    by (simp add: extract_eval)
  have e2: "extract_sections_from_text ascii_tables default_config ?t2 4 (Some 20) = [?s2]"
    by (simp add: extract_eval)
  have s2: "py_strip ?t2 = ?t2"
    by (simp add: extract_eval)
  have l1: "\<exists>p \<in> set [cp ''one two three four five six seven eight nine ten.'',
                         cp ''short one.'']. 20 \<le> int (length p)"
    by (simp add: cp_def)
  have l2: "20 \<le> int (length ?t2)"
    by (simp add: cp_def)
  note a = strategies_fall_back_in_order [of default_config "Some 20" ascii_tables ?t1 4]
  note b = strategies_fall_back_in_order [of default_config "Some 20" ascii_tables ?t2 4]
  from a b l1 l2 show ?thesis
    unfolding Let_def h1 p1 q1 e1 h2 p2 q2 w2 e2 s2
    by simp
qed


text \<open>
  Claim C9. The heading test, which takes the first criterion that holds, marks a line
  exactly when the line is shorter than \<^verbatim>\<open>MAX_HEADING_LENGTH\<close> and one of the five
  criteria holds; trying the five criteria in any other order gives the same answer.
\<close>

theorem heading_test_is_disjunction:
  "(is_heading U cfg line \<longleftrightarrow>
      int (length line) < MAX_HEADING_LENGTH cfg \<and>
      (all_caps U line \<or> title_case cfg line \<or> colon_heading line \<or>
       numbered_heading U line \<or> bullet_heading line)) \<and>
   (\<forall>qs. set qs = set (criteria U cfg) \<longrightarrow>
      (is_heading U cfg line \<longleftrightarrow>
         int (length line) < MAX_HEADING_LENGTH cfg \<and> first_match qs line))"
proof
  show "is_heading U cfg line \<longleftrightarrow>
      int (length line) < MAX_HEADING_LENGTH cfg \<and>
      (all_caps U line \<or> title_case cfg line \<or> colon_heading line \<or>
       numbered_heading U line \<or> bullet_heading line)"
    by (rule is_heading_iff)
next
  show "\<forall>qs. set qs = set (criteria U cfg) \<longrightarrow>
      (is_heading U cfg line \<longleftrightarrow>
         int (length line) < MAX_HEADING_LENGTH cfg \<and> first_match qs line)"
  proof (intro allI impI)
    fix qs
    assume "set qs = set (criteria U cfg)"
    then have "first_match qs line \<longleftrightarrow> (\<exists>p \<in> set (criteria U cfg). p line)"
      by (simp add: first_match_iff)
    then show "is_heading U cfg line \<longleftrightarrow>
         int (length line) < MAX_HEADING_LENGTH cfg \<and> first_match qs line"
      by (simp only: is_heading_iff any_criterion_iff)
  qed
qed

theorem heading_test_is_disjunction_witness:
  "set (rev (criteria ascii_tables default_config)) = set (criteria ascii_tables default_config) \<and>
   is_heading ascii_tables default_config (cp ''notes:'') \<and>
   \<not> all_caps ascii_tables (cp ''notes:'') \<and>
   \<not> title_case default_config (cp ''notes:'') \<and>
   colon_heading (cp ''notes:'') \<and>
   first_match (rev (criteria ascii_tables default_config)) (cp ''notes:'')"
proof -
  note t = heading_test_is_disjunction [of ascii_tables default_config "cp ''notes:''"]
  have s: "set (rev (criteria ascii_tables default_config)) =
           set (criteria ascii_tables default_config)"
    by simp
  have c: "colon_heading (cp ''notes:'')"
    by (simp add: colon_heading_def ends_with_colon_def cp_def py_isspace_def)
  have a: "\<not> all_caps ascii_tables (cp ''notes:'')"
    by (simp add: all_caps_def py_isupper_def ascii_tables_def cp_def)
  have b: "\<not> title_case default_config (cp ''notes:'')"
    by (simp add: title_case_def title_case_pattern_def cp_def not_sentence_end_def capital_def)
  have g: "int (length (cp ''notes:'')) < MAX_HEADING_LENGTH default_config"
    by (simp add: default_config_def cp_def)
  from t c g have h: "is_heading ascii_tables default_config (cp ''notes:'')" by blast
  from t s have "is_heading ascii_tables default_config (cp ''notes:'') \<longleftrightarrow>
      int (length (cp ''notes:'')) < MAX_HEADING_LENGTH default_config \<and>
      first_match (rev (criteria ascii_tables default_config)) (cp ''notes:'')"
    by blast
  with h have "first_match (rev (criteria ascii_tables default_config)) (cp ''notes:'')"
    by blast
  with s h a b c show ?thesis by blast
qed



section \<open>Properties of the ranking\<close>


subsection \<open>The scoring loop\<close>

lemma score_loop_index_sorted:
  "sorted_wrt (\<lambda>a b. index a < index b) (score_loop i ps t) \<and>
   (\<forall>e \<in> set (score_loop i ps t). i \<le> index e)"
proof (induction ps arbitrary: i)
  case Nil
  show ?case by simp
next
  case (Cons p ps)
  obtain sec sim where p: "p = (sec, sim)" by (cases p)
  from Cons [of "Suc i"] have s: "sorted_wrt (\<lambda>a b. index a < index b) (score_loop (Suc i) ps t)"
    and g: "\<forall>e \<in> set (score_loop (Suc i) ps t). Suc i \<le> index e" by simp_all
  from g have g': "\<forall>e \<in> set (score_loop (Suc i) ps t). i < index e \<and> i \<le> index e"
    by auto
  with s p show ?case by (cases sim) auto
qed

lemma score_loop_sound:
  "e \<in> set (score_loop i ps t) \<Longrightarrow>
   i \<le> index e \<and> index e - i < length ps \<and>
   ps ! (index e - i) = (section e, Num (similarity e)) \<and> float_ge (Num (similarity e)) t"
proof (induction ps arbitrary: i)
  case Nil
  then show ?case by simp
next
  case (Cons p ps)
  obtain sec sim where p: "p = (sec, sim)" by (cases p)
  show ?case
  proof (cases "e \<in> set (score_loop (Suc i) ps t)")
    case True
    from Cons.IH [OF this] have "Suc i \<le> index e" "index e - Suc i < length ps"
      "ps ! (index e - Suc i) = (section e, Num (similarity e))"
      "float_ge (Num (similarity e)) t" by simp_all
    moreover from \<open>Suc i \<le> index e\<close> have "index e - i = Suc (index e - Suc i)" by simp
    ultimately show ?thesis by simp
  next
    case False
    with Cons.prems p obtain v where "sim = Num v" "float_ge (Num v) t"
      "e = \<lparr>section = sec, similarity = v, index = i\<rparr>"
      by (cases sim) (auto split: if_splits)
    with p show ?thesis by simp
  qed
qed

lemma score_loop_complete:
  "k < length ps \<Longrightarrow> ps ! k = (sec, Num v) \<Longrightarrow> float_ge (Num v) t \<Longrightarrow>
   \<lparr>section = sec, similarity = v, index = i + k\<rparr> \<in> set (score_loop i ps t)"
proof (induction ps arbitrary: i k)
  case Nil
  then show ?case by simp
next
  case (Cons p ps)
  obtain sec' sim where p: "p = (sec', sim)" by (cases p)
  show ?case
  proof (cases k)
    case 0
    with Cons.prems p show ?thesis by simp
  next
    case (Suc j)
    with Cons.prems have "j < length ps" "ps ! j = (sec, Num v)" by simp_all
    from Cons.IH [OF this Cons.prems(3), of "Suc i"] Suc
    have "\<lparr>section = sec, similarity = v, index = i + k\<rparr> \<in> set (score_loop (Suc i) ps t)"
      by simp
    with p show ?thesis by (cases sim) auto
  qed
qed

subsection \<open>The reversed stable sort\<close>

lemma set_sort_reverse: "set (sort_reverse f xs) = set xs"
  by (simp add: sort_reverse_def)

lemma length_sort_reverse: "length (sort_reverse f xs) = length xs"
  by (simp add: sort_reverse_def)

lemma filter_sort_reverse:
  "filter (\<lambda>x. f x = k) (sort_reverse f xs) = filter (\<lambda>x. f x = k) xs"
proof -
  have "filter (\<lambda>x. f x = k) (sort_key f (rev xs)) = filter (\<lambda>x. f x = k) (rev xs)"
    by (rule sort_key_stable)
  then show ?thesis by (simp add: sort_reverse_def rev_filter [symmetric])
qed

lemma sorted_with_ties:
  assumes "sorted (map f xs)"
    and "\<And>k. sorted_wrt R (filter (\<lambda>x. f x = k) xs)"
  shows "sorted_wrt (\<lambda>a b. f a < f b \<or> (f a = f b \<and> R a b)) xs"
  using assms
proof (induction xs)
  case Nil
  show ?case by simp
next
  case (Cons x xs)
  have tl: "sorted_wrt (\<lambda>a b. f a < f b \<or> (f a = f b \<and> R a b)) xs"
  proof (rule Cons.IH)
    from Cons.prems(1) show "sorted (map f xs)" by simp
  next
    fix k
    from Cons.prems(2) [of k] show "sorted_wrt R (filter (\<lambda>x. f x = k) xs)"
      by (simp split: if_splits)
  qed
  have "f x < f y \<or> (f x = f y \<and> R x y)" if y: "y \<in> set xs" for y
  proof (cases "f x = f y")
    case True
    with Cons.prems(2) [of "f x"] y show ?thesis by simp
  next
    case False
    moreover from Cons.prems(1) y have "f x \<le> f y" by simp
    ultimately show ?thesis by simp
  qed
  with tl show ?case by simp
qed

lemma sort_reverse_ranked:
  assumes "sorted_wrt (\<lambda>a b. g a < g b) xs"
  shows "sorted_wrt (\<lambda>a b. f b < f a \<or> (f a = f b \<and> g a < (g b :: nat))) (sort_reverse f xs)"
proof -
  let ?ys = "sort_key f (rev xs)"
  have s: "sorted (map f ?ys)" by (rule sorted_sort_key)
  have t: "sorted_wrt (\<lambda>a b. g b < g a) (filter (\<lambda>x. f x = k) ?ys)" for k
  proof -
    have "filter (\<lambda>x. f x = k) ?ys = rev (filter (\<lambda>x. f x = k) xs)"
      by (simp add: sort_key_stable rev_filter)
    moreover from assms have "sorted_wrt (\<lambda>a b. g a < g b) (filter (\<lambda>x. f x = k) xs)"
      by (rule sorted_wrt_filter)
    ultimately show ?thesis by (simp add: sorted_wrt_rev)
  qed
  from sorted_with_ties [of f ?ys "\<lambda>a b. g b < g a", OF s t]
  have "sorted_wrt (\<lambda>a b. f a < f b \<or> (f a = f b \<and> g b < g a)) ?ys" .
  then have "sorted_wrt (\<lambda>b a. f a < f b \<or> (f a = f b \<and> g b < g a)) (rev ?ys)"
    by (simp add: sorted_wrt_rev)
  moreover have "(\<lambda>b a. f a < f b \<or> (f a = f b \<and> g b < g a)) =
                 (\<lambda>a b. f b < f a \<or> (f a = f b \<and> g a < g b))"
    by (intro ext) auto
  ultimately show ?thesis by (simp add: sort_reverse_def)
qed

subsection \<open>Slices\<close>

lemma slice_to_take: "\<exists>k. py_slice_to xs n = take k xs"
  by (auto simp: py_slice_to_def)

lemma slice_to_nonneg: "0 \<le> n \<Longrightarrow> py_slice_to xs n = take (nat n) xs"
  by (simp add: py_slice_to_def)

lemma sorted_wrt_slice_to: "sorted_wrt R xs \<Longrightarrow> sorted_wrt R (py_slice_to xs n)"
  using slice_to_take [of xs n] by (auto simp: sorted_wrt_take)

lemma set_slice_to: "set (py_slice_to xs n) \<subseteq> set xs"
  using slice_to_take [of xs n] by (auto dest: in_set_takeD)

lemma take_dominates:
  assumes "sorted_wrt R xs" "a \<in> set (take k xs)" "b \<in> set xs" "b \<notin> set (take k xs)"
  shows "R a b"
proof -
  from assms(3,4) have "b \<in> set (drop k xs)"
    by (metis Un_iff append_take_drop_id set_append)
  moreover from assms(1) have "sorted_wrt R (take k xs @ drop k xs)" by simp
  then have "\<forall>x \<in> set (take k xs). \<forall>y \<in> set (drop k xs). R x y"
    unfolding sorted_wrt_append by blast
  ultimately show ?thesis using assms(2) by blast
qed



lemma frs_success:
  assumes "SentenceTransformer E model_name = Inr model"
    and "encode E model task = Inr task_embedding"
    and "encode_batch E model (map combined_text sections) = Inr section_embeddings"
  shows "snd (find_relevant_sections E task sections model_name top_n min_similarity) =
         Inr (py_slice_to
                (sort_reverse similarity
                   (score_loop 0 (zip sections (cos_sim E task_embedding section_embeddings))
                      min_similarity))
                top_n)"
  using assms
  by (cases "sections = []")
    (simp_all add: find_relevant_sections_def Let_def sort_reverse_def py_slice_to_def)

lemma ranked_slice:
  assumes "sorted_wrt (\<lambda>a b. index a < index b) xs"
  shows "sorted_wrt (\<lambda>a b. similarity b < similarity a \<or>
                           (similarity a = similarity b \<and> index a < index b))
           (py_slice_to (sort_reverse similarity xs) n)"
  by (rule sorted_wrt_slice_to) (rule sort_reverse_ranked [OF assms])

lemma slice_capped: "0 \<le> n \<Longrightarrow> length (py_slice_to xs n) \<le> nat n"
  by (simp add: py_slice_to_def)

lemma scored_index_in_pool:
  assumes "e \<in> set (score_loop 0 (zip sections sims) t)"
  shows "index e < length sections \<and> section e = sections ! index e \<and>
         index e < length sims \<and> sims ! index e = Num (similarity e) \<and>
         float_ge (Num (similarity e)) t"
proof -
  from score_loop_sound [OF assms]
  have l: "index e < length (zip sections sims)"
    and z: "zip sections sims ! index e = (section e, Num (similarity e))"
    and g: "float_ge (Num (similarity e)) t" by simp_all
  from l have "index e < length sections" "index e < length sims" by simp_all
  with z g show ?thesis by simp
qed



lemma scored_record:
  "e = \<lparr>section = section e, similarity = similarity e, index = index e\<rparr>"
  by simp

lemma passing_entry:
  assumes "i < length sections" "i < length sims" "sims ! i = Num v" "float_ge (Num v) t"
  shows "\<lparr>section = sections ! i, similarity = v, index = i\<rparr> \<in>
           set (score_loop 0 (zip sections sims) t)"
proof -
  from assms have "i < length (zip sections sims)"
    "zip sections sims ! i = (sections ! i, Num v)" by simp_all
  from score_loop_complete [OF this assms(4), of 0] show ?thesis by simp
qed

lemma scored_indices:
  "index ` set (score_loop 0 (zip sections sims) t) =
     {i. i < length sections \<and> i < length sims \<and> float_ge (sims ! i) t}"
proof (intro equalityI subsetI)
  fix i
  assume "i \<in> index ` set (score_loop 0 (zip sections sims) t)"
  then obtain e where "e \<in> set (score_loop 0 (zip sections sims) t)" "i = index e" by blast
  with scored_index_in_pool [of e sections sims t]
  show "i \<in> {i. i < length sections \<and> i < length sims \<and> float_ge (sims ! i) t}" by simp
next
  fix i
  assume "i \<in> {i. i < length sections \<and> i < length sims \<and> float_ge (sims ! i) t}"
  then have i: "i < length sections" "i < length sims" and g: "float_ge (sims ! i) t" by simp_all
  from g obtain v where v: "sims ! i = Num v" by (cases "sims ! i") simp_all
  with g have "float_ge (Num v) t" by simp
  from passing_entry [OF i v this]
  have "index \<lparr>section = sections ! i, similarity = v, index = i\<rparr> \<in>
          index ` set (score_loop 0 (zip sections sims) t)" by (rule imageI)
  then show "i \<in> index ` set (score_loop 0 (zip sections sims) t)" by simp
qed

lemma scored_count:
  "length (score_loop 0 (zip sections sims) t) =
     card {i. i < length sections \<and> i < length sims \<and> float_ge (sims ! i) t}"
proof -
  let ?cl = "score_loop 0 (zip sections sims) t"
  have "sorted_wrt (\<lambda>a b. index a < index b) ?cl" using score_loop_index_sorted by blast
  then have "sorted_wrt (<) (map index ?cl)" by (simp add: sorted_wrt_map)
  then have "distinct (map index ?cl)" by (simp add: strict_sorted_iff)
  then have "card (set (map index ?cl)) = length (map index ?cl)" by (rule distinct_card)
  then show ?thesis by (simp add: scored_indices)
qed

lemmas rank_eval =
  find_relevant_sections_def example_encoder_def example_pool_def combined_text_def
  sort_reverse_def py_slice_to_def Let_def cp_def

lemma example_loads:
  "SentenceTransformer example_encoder (cp ''m'') = Inr ()"
  "encode example_encoder () (cp ''task'') = Inr 4"
  "encode_batch example_encoder () (map combined_text example_pool) = Inr [5, 4, 6, 6, 2, 8]"
  "cos_sim example_encoder 4 [5, 4, 6, 6, 2, 8] = [NaN, Num 2, Num 3, Num 3, Num 1, Num 4]"
  by (simp_all add: rank_eval)

text \<open>
  Claim C1. When the model loads and both encodings succeed, the call returns a list
  that is ordered by similarity, highest first, with equal similarities ordered by
  ascending index. Each entry stands for a position of the pool: its index is below the
  length of the pool, its section is the section at that position, its similarity is the
  number that \<^verbatim>\<open>cos_sim\<close> gave for that position, and that number passes the
  threshold. For a count \<^verbatim>\<open>top_n\<close> that is not negative, the length of the list is
  the smaller of \<^verbatim>\<open>top_n\<close> and the number of positions whose score passes the
  threshold. When a position whose score passes the threshold is left out, each entry of
  the list has a higher similarity than that position, or the same similarity and a
  smaller index, and for a count that is not negative the list has exactly
  \<^verbatim>\<open>top_n\<close> entries.
\<close>

theorem ranking_sorted_and_capped:
  assumes "SentenceTransformer E model_name = Inr model"
    and "encode E model task = Inr task_embedding"
    and "encode_batch E model (map combined_text sections) = Inr section_embeddings"
  shows "\<exists>res. snd (find_relevant_sections E task sections model_name top_n min_similarity) = Inr res \<and>
     (let similarities = cos_sim E task_embedding section_embeddings in
        sorted_wrt (\<lambda>a b. similarity b < similarity a \<or>
                           (similarity a = similarity b \<and> index a < index b)) res \<and>
        (\<forall>e \<in> set res.
           index e < length sections \<and> section e = sections ! index e \<and>
           index e < length similarities \<and> similarities ! index e = Num (similarity e) \<and>
           float_ge (Num (similarity e)) min_similarity) \<and>
        (0 \<le> top_n \<longrightarrow>
           length res \<le> nat top_n \<and>
           length res =
             min (nat top_n)
               (card {i. i < length sections \<and> i < length similarities \<and>
                         float_ge (similarities ! i) min_similarity})) \<and>
        (\<forall>i v. i < length sections \<and> i < length similarities \<and>
               similarities ! i = Num v \<and> float_ge (Num v) min_similarity \<and>
               i \<notin> index ` set res \<longrightarrow>
               (0 \<le> top_n \<longrightarrow> length res = nat top_n) \<and>
               (\<forall>e \<in> set res. v < similarity e \<or> (v = similarity e \<and> index e < i))))"
proof -
  let ?sims = "cos_sim E task_embedding section_embeddings"
  let ?cleared = "score_loop 0 (zip sections ?sims) min_similarity"
  let ?sorted = "sort_reverse similarity ?cleared"
  let ?res = "py_slice_to ?sorted top_n"
  let ?R = "\<lambda>a b. similarity b < similarity a \<or>
                   (similarity a = similarity b \<and> index a < index b)"
  have r: "snd (find_relevant_sections E task sections model_name top_n min_similarity) = Inr ?res"
    by (rule frs_success [OF assms])
  have i: "sorted_wrt (\<lambda>a b. index a < index b) ?cleared"
    using score_loop_index_sorted by blast
  have ss: "sorted_wrt ?R ?sorted" by (rule sort_reverse_ranked [OF i])
  have s: "sorted_wrt ?R ?res" by (rule ranked_slice [OF i])
  have sub: "set ?res \<subseteq> set ?cleared"
    using set_slice_to [of ?sorted top_n] by (simp add: set_sort_reverse)
  have pool: "\<forall>e \<in> set ?res.
           index e < length sections \<and> section e = sections ! index e \<and>
           index e < length ?sims \<and> ?sims ! index e = Num (similarity e) \<and>
           float_ge (Num (similarity e)) min_similarity"
    using sub scored_index_in_pool by blast
  have len: "length ?res \<le> nat top_n \<and>
           length ?res =
             min (nat top_n)
               (card {i. i < length sections \<and> i < length ?sims \<and>
                         float_ge (?sims ! i) min_similarity})"
    if n: "0 \<le> top_n"
  proof -
    from n have "?res = take (nat top_n) ?sorted" by (rule slice_to_nonneg)
    then have "length ?res = min (nat top_n) (length ?cleared)"
      by (simp add: length_sort_reverse min.commute)
    then show ?thesis by (simp add: scored_count)
  qed
  have out: "(0 \<le> top_n \<longrightarrow> length ?res = nat top_n) \<and>
             (\<forall>e \<in> set ?res. v < similarity e \<or> (v = similarity e \<and> index e < i))"
    if h: "i < length sections" "i < length ?sims" "?sims ! i = Num v"
        "float_ge (Num v) min_similarity" "i \<notin> index ` set ?res"
    for i v
  proof -
    let ?a = "\<lparr>section = sections ! i, similarity = v, index = i\<rparr>"
    from slice_to_take [of ?sorted top_n] obtain k where t: "?res = take k ?sorted" by blast
    from passing_entry [OF h(1,2,3,4)] have a: "?a \<in> set ?sorted"
      by (simp add: set_sort_reverse)
    have na: "?a \<notin> set ?res"
    proof
      assume "?a \<in> set ?res"
      then have "index ?a \<in> index ` set ?res" by (rule imageI)
      with h(5) show False by simp
    qed
    have l: "length ?res = nat top_n" if n: "0 \<le> top_n"
    proof -
      from n have tn: "?res = take (nat top_n) ?sorted" by (rule slice_to_nonneg)
      have "nat top_n < length ?sorted"
      proof (rule ccontr)
        assume "\<not> nat top_n < length ?sorted"
        then have "take (nat top_n) ?sorted = ?sorted" by simp
        with tn a na show False by simp
      qed
      with tn show ?thesis by simp
    qed
    have "\<forall>e \<in> set ?res. v < similarity e \<or> (v = similarity e \<and> index e < i)"
    proof
      fix e
      assume "e \<in> set ?res"
      with t have e: "e \<in> set (take k ?sorted)" by simp
      from na t have "?a \<notin> set (take k ?sorted)" by simp
      from take_dominates [OF ss e a this]
      show "v < similarity e \<or> (v = similarity e \<and> index e < i)" by auto
    qed
    with l show ?thesis by blast
  qed
  from r s pool len out show ?thesis
    unfolding Let_def by blast
qed

theorem ranking_sorted_and_capped_witness:
  "SentenceTransformer example_encoder (cp ''m'') = Inr () \<and>
   encode example_encoder () (cp ''task'') = Inr 4 \<and>
   encode_batch example_encoder () (map combined_text example_pool) = Inr [5, 4, 6, 6, 2, 8] \<and>
   cos_sim example_encoder 4 [5, 4, 6, 6, 2, 8] = [NaN, Num 2, Num 3, Num 3, Num 1, Num 4] \<and>
   (0::int) \<le> 3 \<and>
   (1::nat) < length example_pool \<and>
   float_ge (Num (2::int)) (Num 2) \<and>
   (1::nat) \<notin> index ` set [\<lparr>section = example_pool ! 5, similarity = (4::int), index = 5\<rparr>,
                              \<lparr>section = example_pool ! 2, similarity = 3, index = 2\<rparr>,
                              \<lparr>section = example_pool ! 3, similarity = 3, index = 3\<rparr>] \<and>
   snd (find_relevant_sections example_encoder (cp ''task'') example_pool (cp ''m'') 3 (Num 2)) =
     Inr [\<lparr>section = example_pool ! 5, similarity = 4, index = 5\<rparr>,
          \<lparr>section = example_pool ! 2, similarity = 3, index = 2\<rparr>,
          \<lparr>section = example_pool ! 3, similarity = 3, index = 3\<rparr>]"
proof -
  let ?r = "[\<lparr>section = example_pool ! 5, similarity = (4::int), index = 5\<rparr>,
             \<lparr>section = example_pool ! 2, similarity = 3, index = 2\<rparr>,
             \<lparr>section = example_pool ! 3, similarity = 3, index = 3\<rparr>]"
  have e: "snd (find_relevant_sections example_encoder (cp ''task'') example_pool (cp ''m'') 3
                  (Num 2)) = Inr ?r"
    by (simp add: rank_eval)
  have o: "(1::nat) \<notin> index ` set ?r" by simp
  have p: "(1::nat) < length example_pool" by (simp add: example_pool_def)
  from ranking_sorted_and_capped [OF example_loads(1,2,3), of 3 "Num 2"]
  obtain res where res: "snd (find_relevant_sections example_encoder (cp ''task'') example_pool
                           (cp ''m'') 3 (Num 2)) = Inr res"
    and out: "\<forall>i v. i < length example_pool \<and>
               i < length (cos_sim example_encoder 4 [5, 4, 6, 6, 2, 8]) \<and>
               cos_sim example_encoder 4 [5, 4, 6, 6, 2, 8] ! i = Num v \<and> float_ge (Num v) (Num 2) \<and>
               i \<notin> index ` set res \<longrightarrow>
               (0 \<le> (3::int) \<longrightarrow> length res = nat 3) \<and>
               (\<forall>e \<in> set res. v < similarity e \<or> (v = similarity e \<and> index e < i))"
    unfolding Let_def by blast
  from res e have "res = ?r" by simp
  with out o p example_loads(4) have "length ?r = nat 3" by simp
  with e o p example_loads show ?thesis by simp
qed

text \<open>
  Claim C2. When the model loads and both encodings succeed, every entry of the result
  has a similarity that is at least \<^verbatim>\<open>min_similarity\<close>, so none is below it. A section
  whose similarity equals \<^verbatim>\<open>min_similarity\<close> passes the filter; it is in the result
  unless the result is cut to \<^verbatim>\<open>top_n\<close> entries.
\<close>

theorem threshold_is_inclusive:
  assumes "SentenceTransformer E model_name = Inr model"
    and "encode E model task = Inr task_embedding"
    and "encode_batch E model (map combined_text sections) = Inr section_embeddings"
  shows "\<exists>res. snd (find_relevant_sections E task sections model_name top_n min_similarity) = Inr res \<and>
     (\<forall>e \<in> set res. float_ge (Num (similarity e)) min_similarity \<and>
                    (\<forall>t. min_similarity = Num t \<longrightarrow> \<not> similarity e < t)) \<and>
     (\<forall>i v. i < length sections \<and> i < length (cos_sim E task_embedding section_embeddings) \<and>
            cos_sim E task_embedding section_embeddings ! i = Num v \<and> min_similarity = Num v \<longrightarrow>
            \<lparr>section = sections ! i, similarity = v, index = i\<rparr> \<in>
              set (score_loop 0 (zip sections (cos_sim E task_embedding section_embeddings))
                     min_similarity) \<and>
            (0 \<le> top_n \<longrightarrow>
               \<lparr>section = sections ! i, similarity = v, index = i\<rparr> \<in> set res \<or>
               length res = nat top_n))"
proof -
  let ?sims = "cos_sim E task_embedding section_embeddings"
  let ?cleared = "score_loop 0 (zip sections ?sims) min_similarity"
  let ?sorted = "sort_reverse similarity ?cleared"
  let ?res = "py_slice_to ?sorted top_n"
  have r: "snd (find_relevant_sections E task sections model_name top_n min_similarity) = Inr ?res"
    by (rule frs_success [OF assms])
  have sub: "set ?res \<subseteq> set ?cleared"
    using set_slice_to [of ?sorted top_n] by (simp add: set_sort_reverse)
  have ge: "\<forall>e \<in> set ?res. float_ge (Num (similarity e)) min_similarity \<and>
                    (\<forall>t. min_similarity = Num t \<longrightarrow> \<not> similarity e < t)"
  proof
    fix e
    assume "e \<in> set ?res"
    with sub have "e \<in> set ?cleared" by blast
    then have "float_ge (Num (similarity e)) min_similarity"
      using scored_index_in_pool by blast
    then show "float_ge (Num (similarity e)) min_similarity \<and>
                    (\<forall>t. min_similarity = Num t \<longrightarrow> \<not> similarity e < t)"
      by (cases min_similarity) auto
  qed
  have incl: "\<lparr>section = sections ! i, similarity = v, index = i\<rparr> \<in> set ?cleared \<and>
            (0 \<le> top_n \<longrightarrow>
               \<lparr>section = sections ! i, similarity = v, index = i\<rparr> \<in> set ?res \<or>
               length ?res = nat top_n)"
    if h: "i < length sections" "i < length ?sims" "?sims ! i = Num v" "min_similarity = Num v"
    for i v
  proof
    from h have "i < length (zip sections ?sims)" "zip sections ?sims ! i = (sections ! i, Num v)"
      "float_ge (Num v) min_similarity" by simp_all
    from score_loop_complete [OF this, of 0]
    show m: "\<lparr>section = sections ! i, similarity = v, index = i\<rparr> \<in> set ?cleared" by simp
    show "0 \<le> top_n \<longrightarrow>
               \<lparr>section = sections ! i, similarity = v, index = i\<rparr> \<in> set ?res \<or>
               length ?res = nat top_n"
    proof
      assume n: "0 \<le> top_n"
      show "\<lparr>section = sections ! i, similarity = v, index = i\<rparr> \<in> set ?res \<or>
               length ?res = nat top_n"
      proof (cases "length ?cleared \<le> nat top_n")
        case True
        with n m show ?thesis by (simp add: slice_to_nonneg length_sort_reverse set_sort_reverse)
      next
        case False
        with n show ?thesis by (simp add: slice_to_nonneg length_sort_reverse)
      qed
    qed
  qed
  from r ge incl show ?thesis by blast
qed

theorem threshold_is_inclusive_witness:
  "SentenceTransformer example_encoder (cp ''m'') = Inr () \<and>
   encode example_encoder () (cp ''task'') = Inr 4 \<and>
   encode_batch example_encoder () (map combined_text example_pool) = Inr [5, 4, 6, 6, 2, 8] \<and>
   cos_sim example_encoder 4 [5, 4, 6, 6, 2, 8] ! 1 = Num 2 \<and>
   (1::nat) < length example_pool \<and> (0::int) \<le> 5 \<and>
   snd (find_relevant_sections example_encoder (cp ''task'') example_pool (cp ''m'') 5 (Num 2)) =
     Inr [\<lparr>section = example_pool ! 5, similarity = 4, index = 5\<rparr>,
          \<lparr>section = example_pool ! 2, similarity = 3, index = 2\<rparr>,
          \<lparr>section = example_pool ! 3, similarity = 3, index = 3\<rparr>,
          \<lparr>section = example_pool ! 1, similarity = 2, index = 1\<rparr>]"
proof -
  have e: "snd (find_relevant_sections example_encoder (cp ''task'') example_pool (cp ''m'') 5
                  (Num 2)) =
     Inr [\<lparr>section = example_pool ! 5, similarity = 4, index = 5\<rparr>,
          \<lparr>section = example_pool ! 2, similarity = 3, index = 2\<rparr>,
          \<lparr>section = example_pool ! 3, similarity = 3, index = 3\<rparr>,
          \<lparr>section = example_pool ! 1, similarity = 2, index = 1\<rparr>]"
    by (simp add: rank_eval)
  from threshold_is_inclusive [OF example_loads(1,2,3), of 5 "Num 2"]
  obtain res where "snd (find_relevant_sections example_encoder (cp ''task'') example_pool
                           (cp ''m'') 5 (Num 2)) = Inr res"
    and "\<forall>e \<in> set res. float_ge (Num (similarity e)) (Num 2)" by blast
  with e example_loads show ?thesis by (simp add: example_pool_def)
qed

text \<open>
  Claim C6, as the code has it. With an empty list of sections the only call to the
  library is the construction of the model, which comes before the test for the empty
  list: there is no call to \<^verbatim>\<open>encode\<close>, and the result is the empty list when the
  model loads and the exception of the constructor when it does not.
\<close>

theorem empty_pool_loads_model_only:
  "find_relevant_sections E task [] model_name top_n min_similarity =
     ([Load_model model_name],
      (case SentenceTransformer E model_name of Inl e \<Rightarrow> Inl e | Inr model \<Rightarrow> Inr []))"
  by (simp add: find_relevant_sections_def split: sum.splits)


theorem empty_pool_counterexample:
  "find_relevant_sections example_encoder (cp ''plan a trip'') ([] :: Section list)
     (cp ''missing'') 5 (Num 1) =
   ([Load_model (cp ''missing'')], Inl (Exception (cp ''cannot load''))) \<and>
   find_relevant_sections example_encoder (cp ''plan a trip'') ([] :: Section list)
     (cp ''all-MiniLM-L6-v2'') 5 (Num 1) =
   ([Load_model (cp ''all-MiniLM-L6-v2'')], Inr [])"
  by (simp add: find_relevant_sections_def example_encoder_def cp_def)


end
